theory Spec2Isabelle
  imports Main "HOL-Library.Sublist" "HOL-Library.AList"
begin

section \<open>Exceptions\<close>

text \<open>
  The importer (\<^verbatim>\<open>import_webflow.py\<close>) has no exception classes of its own; every failure
  is one of Python's built-in exceptions, raised by the interpreter, by \<^verbatim>\<open>os\<close> or by
  BeautifulSoup. They are values here, and a computation that can raise returns
  \<open>exn + 'a\<close> with \<open>Inl\<close> the exception.
\<close>

datatype exn =
    AttributeError
  | IndexError
  | KeyError
  | FileNotFoundError
  | NotADirectoryError
  | IsADirectoryError
  | FileExistsError
  | OSError

section \<open>The parse tree\<close>

text \<open>
  BeautifulSoup's tree as the script uses it: a \<^verbatim>\<open>Tag\<close> has a \<^verbatim>\<open>name\<close>, its \<^verbatim>\<open>attrs\<close> (a dict,
  kept as an association list in insertion order) and its \<^verbatim>\<open>contents\<close>; every other
  page element (text, comment, doctype) is a \<^verbatim>\<open>NavigableString\<close>. A parsed document
  (\<^verbatim>\<open>soup.contents\<close>) is a list of nodes. Only single-valued attributes are read or
  written by the script (\<^verbatim>\<open>href\<close>, \<^verbatim>\<open>src\<close>, \<^verbatim>\<open>srcset\<close>, \<^verbatim>\<open>data-src\<close>, \<^verbatim>\<open>data-for\<close>,
  \<^verbatim>\<open>data-animation-type\<close>), so an attribute value is a string.
\<close>

type_synonym attrs = "(string \<times> string) list"

datatype node =
    NavigableString string
  | Tag string attrs "node list"

text \<open>\<^verbatim>\<open>tag.get(key)\<close> looks the key up; \<^verbatim>\<open>tag[key] = v\<close> stores it (a present key keeps
  its place, a new key goes last, as in a Python dict).\<close>

definition tag_get :: "attrs \<Rightarrow> string \<Rightarrow> string option" where
  "tag_get a k = map_of a k"

definition tag_set :: "string \<Rightarrow> string \<Rightarrow> attrs \<Rightarrow> attrs" where
  "tag_set k v a = AList.update k v a"

text \<open>\<^verbatim>\<open>s.startswith(p)\<close>.\<close>

definition startswith :: "string \<Rightarrow> string \<Rightarrow> bool" where
  "startswith s p = prefix p s"

text \<open>\<^verbatim>\<open>s.split(" ")\<close>: the pieces between single spaces; never empty.\<close>

fun split_space :: "string \<Rightarrow> string list" where
  "split_space [] = [[]]"
| "split_space (c # cs) =
     (if c = CHR '' '' then [] # split_space cs
      else (case split_space cs of
              [] \<Rightarrow> [[c]]
            | w # ws \<Rightarrow> (c # w) # ws))"

text \<open>
  \<^verbatim>\<open>Tag.insert(position, new_child)\<close> of BeautifulSoup 4, for a child that has no parent
  yet. The library clamps the position from above only
  (\<^verbatim>\<open>position = min(position, len(self.contents))\<close>), reads
  \<^verbatim>\<open>self.contents[position - 1]\<close> when the position is not 0 and
  \<^verbatim>\<open>self.contents[position]\<close> when it is below the length (either read raises
  \<^verbatim>\<open>IndexError\<close> out of range), and ends with
  \<^verbatim>\<open>self.contents.insert(position, new_child)\<close>, Python's \<^verbatim>\<open>list.insert\<close>, where a negative
  position counts from the end.
\<close>

definition py_index_ok :: "int \<Rightarrow> int \<Rightarrow> bool" where
  "py_index_ok n i = (- n \<le> i \<and> i < n)"

definition list_insert :: "int \<Rightarrow> 'a \<Rightarrow> 'a list \<Rightarrow> 'a list" where
  "list_insert i x xs =
     (let n = int (length xs);
          j = (if i < 0 then max 0 (i + n) else min i n)
      in take (nat j) xs @ x # drop (nat j) xs)"

definition tag_insert :: "int \<Rightarrow> node \<Rightarrow> node list \<Rightarrow> exn + node list" where
  "tag_insert position new_child contents =
     (let n = int (length contents);
          pos = min position n
      in if pos \<noteq> 0 \<and> \<not> py_index_ok n (pos - 1) then Inl IndexError
         else if pos < n \<and> \<not> py_index_ok n pos then Inl IndexError
         else Inr (list_insert pos new_child contents))"

text \<open>A run of \<^verbatim>\<open>tag.insert(position, text)\<close> calls on one tag, in order.\<close>

fun insert_all :: "(int \<times> string) list \<Rightarrow> node list \<Rightarrow> exn + node list" where
  "insert_all [] cs = Inr cs"
| "insert_all ((i, s) # ins) cs =
     (case tag_insert i (NavigableString s) cs of
        Inl e \<Rightarrow> Inl e
      | Inr cs' \<Rightarrow> insert_all ins cs')"

section \<open>Loops over \<^verbatim>\<open>find_all\<close>\<close>

text \<open>
  \<^verbatim>\<open>for tag in soup.find_all(...): body\<close>. \<^verbatim>\<open>find_all\<close> returns every descendant tag that
  matches, in document order, and the body then mutates each tag in place. Every body of
  \<^verbatim>\<open>update_html\<close> reads only the tag's name and attributes, assigns attributes of that tag
  and inserts fresh strings among its children, so no body changes which tags match or
  what another tag's body sees, and the loop is a traversal of the tree: \<open>sel n a\<close> is the
  \<^verbatim>\<open>find_all\<close> filter, \<open>body n a\<close> returns the tag's new attributes and the
  \<^verbatim>\<open>tag.insert\<close> calls it makes, or the exception it raises. Within one loop every failure
  raises the same exception, so the first failure the traversal meets is the exception
  the loop raises.
\<close>

type_synonym body = "string \<Rightarrow> attrs \<Rightarrow> exn + (attrs \<times> (int \<times> string) list)"

fun for_each_tag :: "(string \<Rightarrow> attrs \<Rightarrow> bool) \<Rightarrow> body \<Rightarrow> node \<Rightarrow> exn + node"
  and for_each_tags :: "(string \<Rightarrow> attrs \<Rightarrow> bool) \<Rightarrow> body \<Rightarrow> node list \<Rightarrow> exn + node list"
where
  "for_each_tag sel body (NavigableString s) = Inr (NavigableString s)"
| "for_each_tag sel body (Tag n a cs) =
     (if sel n a then
        (case body n a of
           Inl e \<Rightarrow> Inl e
         | Inr (a', ins) \<Rightarrow>
             (case for_each_tags sel body cs of
                Inl e \<Rightarrow> Inl e
              | Inr cs' \<Rightarrow>
                  (case insert_all ins cs' of
                     Inl e \<Rightarrow> Inl e
                   | Inr cs'' \<Rightarrow> Inr (Tag n a' cs''))))
      else
        (case for_each_tags sel body cs of
           Inl e \<Rightarrow> Inl e
         | Inr cs' \<Rightarrow> Inr (Tag n a cs')))"
| "for_each_tags sel body [] = Inr []"
| "for_each_tags sel body (x # xs) =
     (case for_each_tag sel body x of
        Inl e \<Rightarrow> Inl e
      | Inr x' \<Rightarrow>
          (case for_each_tags sel body xs of
             Inl e \<Rightarrow> Inl e
           | Inr xs' \<Rightarrow> Inr (x' # xs')))"

text \<open>
  \<^verbatim>\<open>soup.find(name)\<close> followed by a change of the found tag's children: the first tag of
  that name in document order gets its contents replaced by \<open>g contents\<close>; \<open>None\<close> when
  the document has no such tag (\<^verbatim>\<open>find\<close> returns \<^verbatim>\<open>None\<close>).
\<close>

fun modify_first :: "string \<Rightarrow> (node list \<Rightarrow> node list) \<Rightarrow> node \<Rightarrow> node option"
  and modify_first_in :: "string \<Rightarrow> (node list \<Rightarrow> node list) \<Rightarrow> node list \<Rightarrow> node list option"
where
  "modify_first nm g (NavigableString s) = None"
| "modify_first nm g (Tag n a cs) =
     (if n = nm then Some (Tag n a (g cs))
      else (case modify_first_in nm g cs of
              None \<Rightarrow> None
            | Some cs' \<Rightarrow> Some (Tag n a cs')))"
| "modify_first_in nm g [] = None"
| "modify_first_in nm g (x # xs) =
     (case modify_first nm g x of
        Some x' \<Rightarrow> Some (x' # xs)
      | None \<Rightarrow>
          (case modify_first_in nm g xs of
             None \<Rightarrow> None
           | Some xs' \<Rightarrow> Some (x # xs')))"

section \<open>The rewrite passes of \<^verbatim>\<open>update_html\<close>\<close>

text \<open>\<^verbatim>\<open>f"{{% static '{target_app}/{path}' %}}"\<close>.\<close>

definition quote :: string where
  "quote = [CHR 0x27]"

definition static_ref :: "string \<Rightarrow> string \<Rightarrow> string" where
  "static_ref target_app path =
     ''{% static '' @ quote @ target_app @ ''/'' @ path @ quote @ '' %}''"

text \<open>The \<^verbatim>\<open>link\<close> loop: \<^verbatim>\<open>tag.get('href').startswith(...)\<close> raises \<^verbatim>\<open>AttributeError\<close> when
  the tag has no \<^verbatim>\<open>href\<close> (\<^verbatim>\<open>get\<close> returns \<^verbatim>\<open>None\<close>).\<close>

definition link_body :: "string \<Rightarrow> body" where
  "link_body target_app n a =
     (case tag_get a ''href'' of
        None \<Rightarrow> Inl AttributeError
      | Some href \<Rightarrow>
          (let a1 = (if startswith href ''css''
                     then tag_set ''href'' (static_ref target_app href) a else a)
           in case tag_get a1 ''href'' of
                None \<Rightarrow> Inl AttributeError
              | Some href1 \<Rightarrow>
                  Inr (if startswith href1 ''images''
                       then tag_set ''href'' (static_ref target_app href1) a1 else a1, [])))"

text \<open>
  \<^verbatim>\<open>re.sub(r"images/([^ ]+)", rf"{{% static '{target_app}/images/\g<1>' %}}", s)\<close>:
  scanning from the left, wherever \<^verbatim>\<open>images/\<close> is followed by at least one character that
  is not a space, the match is \<^verbatim>\<open>images/\<close> with the longest run of such characters (the
  class is greedy and nothing follows it in the pattern); the match is replaced and the
  scan goes on after it; any other character is copied. The replacement template is
  taken literally but for the group reference, which holds for a \<^verbatim>\<open>target_app\<close> without a
  backslash.
\<close>

definition not_space :: "char \<Rightarrow> bool" where
  "not_space c = (c \<noteq> CHR '' '')"

definition match_at :: "string \<Rightarrow> bool" where
  "match_at s = (prefix ''images/'' s \<and> takeWhile not_space (drop 7 s) \<noteq> [])"

function re_sub_images :: "string \<Rightarrow> string \<Rightarrow> string" where
  "re_sub_images target_app [] = []"
| "re_sub_images target_app (c # cs) =
     (if match_at (c # cs) then
        static_ref target_app (''images/'' @ takeWhile not_space (drop 7 (c # cs)))
          @ re_sub_images target_app (dropWhile not_space (drop 7 (c # cs)))
      else c # re_sub_images target_app cs)"
  by pat_completeness auto
termination
  by (relation "measure (\<lambda>(app, s). length s)")
     (auto simp: match_at_def less_Suc_eq_le intro: le_trans [OF length_dropWhile_le])

text \<open>The \<^verbatim>\<open>img\<close> loop. \<^verbatim>\<open>tag.get('srcset', '')\<close> defaults to the empty string.\<close>

definition img_body :: "string \<Rightarrow> body" where
  "img_body target_app n a =
     (case tag_get a ''src'' of
        None \<Rightarrow> Inl AttributeError
      | Some src \<Rightarrow>
          (let a1 = (if startswith src ''images''
                     then tag_set ''src'' (static_ref target_app src) a else a);
               srcset = (case tag_get a1 ''srcset'' of None \<Rightarrow> [] | Some v \<Rightarrow> v)
           in Inr (if startswith srcset ''images''
                   then tag_set ''srcset'' (re_sub_images target_app srcset) a1 else a1, [])))"

text \<open>The \<^verbatim>\<open>script\<close> loop: \<^verbatim>\<open>if src and src.startswith("js")\<close>.\<close>

definition script_body :: "string \<Rightarrow> body" where
  "script_body target_app n a =
     (case tag_get a ''src'' of
        None \<Rightarrow> Inr (a, [])
      | Some src \<Rightarrow>
          Inr (if src \<noteq> [] \<and> startswith src ''js''
               then tag_set ''src'' (static_ref target_app src) a else a, []))"

text \<open>The lottie loop, over \<^verbatim>\<open>find_all('div', {'data-animation-type': 'lottie'})\<close>.\<close>

definition lottie_sel :: "string \<Rightarrow> attrs \<Rightarrow> bool" where
  "lottie_sel n a = (n = ''div'' \<and> tag_get a ''data-animation-type'' = Some ''lottie'')"

definition lottie_body :: "string \<Rightarrow> body" where
  "lottie_body target_app n a =
     (case tag_get a ''data-src'' of
        None \<Rightarrow> Inr (a, [])
      | Some data_src \<Rightarrow>
          Inr (if data_src \<noteq> [] \<and> startswith data_src ''documents''
               then tag_set ''data-src'' (static_ref target_app data_src) a else a, []))"

text \<open>The \<^verbatim>\<open>data-for\<close> loop, over
  \<^verbatim>\<open>find_all(['div', 'img', 'li', 'ul'], {'data-for': True})\<close>. The filter guarantees the
  attribute, so the \<open>None\<close> branch is never taken on a selected tag.\<close>

definition data_for_sel :: "string \<Rightarrow> attrs \<Rightarrow> bool" where
  "data_for_sel n a =
     (n \<in> set [''div'', ''img'', ''li'', ''ul''] \<and> tag_get a ''data-for'' \<noteq> None)"

definition data_for_body :: body where
  "data_for_body n a =
     (case tag_get a ''data-for'' of
        None \<Rightarrow> Inl AttributeError
      | Some for_loop_data \<Rightarrow>
          (if length (split_space for_loop_data) > 1 then
             Inr (a, [(0, ''{% for '' @ for_loop_data @ '' %}''), (- 1, ''{% endfor %}'')])
           else if n = ''img'' then
             Inr (tag_set ''src'' (''{{ '' @ for_loop_data @ '' }}'') a, [])
           else
             Inr (a, [(0, ''{{ '' @ for_loop_data @ '' }}'')])))"

text \<open>The form loop.\<close>

definition csrf_tag :: string where
  "csrf_tag = ''{% csrf_token %}''"

definition form_body :: body where
  "form_body n a = Inr (a, [(0, csrf_tag)])"

definition static_template_tag :: string where
  "static_template_tag = ''{% load static %}''"

definition nl :: string where
  "nl = [CHR 0x0A]"

definition make_forms_async :: string where
  "make_forms_async =
     '''' @ nl @
     ''    // Add native form submission support for Webflow forms. This makes all forms asynchronous.'' @ nl @
     ''    async function submitForm(event, formElement) {'' @ nl @
     ''        /*'' @ nl @
     ''        We use this function to make static html forms submit data asynchronously.'' @ nl @
     ''        */'' @ nl @
     ''        event.preventDefault();'' @ nl @
     '''' @ nl @
     ''        const formData = new FormData(formElement);'' @ nl @
     ''        const response = await fetch(formElement.action, { method: formElement.method, body: formData });'' @ nl @
     '''' @ nl @
     ''        if (response.ok) {'' @ nl @
     ''            formElement.style.display = 'none';'' @ nl @
     ''            const formDoneElement = formElement.parentElement.querySelector('.w-form-done');'' @ nl @
     ''            if (formDoneElement) {'' @ nl @
     ''                formDoneElement.style.display = 'block';'' @ nl @
     ''            }'' @ nl @
     ''        } else {'' @ nl @
     ''            const formFailElement = formElement.parentElement.querySelector('.w-form-fail');'' @ nl @
     ''            if (formFailElement) {'' @ nl @
     ''                formFailElement.style.display = 'block';'' @ nl @
     ''            }'' @ nl @
     ''        }'' @ nl @
     ''    }'' @ nl @
     '''' @ nl @
     ''    const forms = document.querySelectorAll('form');'' @ nl @
     ''    forms.forEach(form => form.addEventListener('submit', event => submitForm(event, form)));'' @ nl @
     ''''"

text \<open>\<^verbatim>\<open>script_tag = soup.new_tag('script'); script_tag.append(make_forms_async)\<close>.\<close>

definition script_tag :: node where
  "script_tag = Tag ''script'' [] [NavigableString make_forms_async]"

text \<open>Sequencing of steps that can raise.\<close>

definition and_then :: "exn + 'a \<Rightarrow> ('a \<Rightarrow> exn + 'b) \<Rightarrow> exn + 'b" where
  "and_then r k = (case r of Inl e \<Rightarrow> Inl e | Inr x \<Rightarrow> k x)"

definition found :: "'a option \<Rightarrow> exn + 'a" where
  "found r = (case r of None \<Rightarrow> Inl AttributeError | Some x \<Rightarrow> Inr x)"

text \<open>
  The passes of \<^verbatim>\<open>update_html\<close> between parsing the file and writing it back, on the parsed
  document. \<^verbatim>\<open>html_tag.insert(0, ...)\<close> raises \<^verbatim>\<open>AttributeError\<close> when \<^verbatim>\<open>soup.find('html')\<close> is
  \<^verbatim>\<open>None\<close>, and inserts at the front otherwise; \<^verbatim>\<open>soup.body\<close> is \<^verbatim>\<open>soup.find('body')\<close>, and
  \<^verbatim>\<open>append\<close> adds the new tag after the last child. The progress lines written to
  standard output are left out of this part of the model.
\<close>

definition link_pass :: "string \<Rightarrow> node list \<Rightarrow> exn + node list" where
  "link_pass target_app = for_each_tags (\<lambda>n a. n = ''link'') (link_body target_app)"

definition img_pass :: "string \<Rightarrow> node list \<Rightarrow> exn + node list" where
  "img_pass target_app = for_each_tags (\<lambda>n a. n = ''img'') (img_body target_app)"

definition script_pass :: "string \<Rightarrow> node list \<Rightarrow> exn + node list" where
  "script_pass target_app = for_each_tags (\<lambda>n a. n = ''script'') (script_body target_app)"

definition lottie_pass :: "string \<Rightarrow> node list \<Rightarrow> exn + node list" where
  "lottie_pass target_app = for_each_tags lottie_sel (lottie_body target_app)"

definition data_for_pass :: "node list \<Rightarrow> exn + node list" where
  "data_for_pass = for_each_tags data_for_sel data_for_body"

definition load_static_step :: "node list \<Rightarrow> exn + node list" where
  "load_static_step soup =
     found (modify_first_in ''html''
              (\<lambda>cs. list_insert 0 (NavigableString static_template_tag) cs) soup)"

definition form_pass :: "node list \<Rightarrow> exn + node list" where
  "form_pass = for_each_tags (\<lambda>n a. n = ''form'') form_body"

definition async_script_step :: "node list \<Rightarrow> exn + node list" where
  "async_script_step soup = found (modify_first_in ''body'' (\<lambda>cs. cs @ [script_tag]) soup)"

definition update_soup :: "string \<Rightarrow> node list \<Rightarrow> exn + node list" where
  "update_soup target_app soup =
     and_then (link_pass target_app soup) (\<lambda>s1.
     and_then (img_pass target_app s1) (\<lambda>s2.
     and_then (script_pass target_app s2) (\<lambda>s3.
     and_then (lottie_pass target_app s3) (\<lambda>s4.
     and_then (data_for_pass s4) (\<lambda>s5.
     and_then (load_static_step s5) (\<lambda>s6.
     and_then (form_pass s6) (\<lambda>s7.
     async_script_step s7)))))))"

section \<open>Nodes of a document\<close>

text \<open>Every node of a tree, in document order: the node itself and its descendants.
  \<open>subnodes_in soup\<close> lists what \<^verbatim>\<open>soup.find_all(True)\<close> would visit, with the strings.\<close>

fun subnodes :: "node \<Rightarrow> node list"
  and subnodes_in :: "node list \<Rightarrow> node list"
where
  "subnodes (NavigableString s) = [NavigableString s]"
| "subnodes (Tag n a cs) = Tag n a cs # subnodes_in cs"
| "subnodes_in [] = []"
| "subnodes_in (x # xs) = subnodes x @ subnodes_in xs"

fun is_string :: "node \<Rightarrow> bool" where
  "is_string (NavigableString s) = True"
| "is_string (Tag n a cs) = False"

text \<open>\<^verbatim>\<open>soup.find(name)\<close>: the first tag of that name in document order, if any.\<close>

fun find_tag :: "string \<Rightarrow> node \<Rightarrow> node option"
  and find_tag_in :: "string \<Rightarrow> node list \<Rightarrow> node option"
where
  "find_tag nm (NavigableString s) = None"
| "find_tag nm (Tag n a cs) = (if n = nm then Some (Tag n a cs) else find_tag_in nm cs)"
| "find_tag_in nm [] = None"
| "find_tag_in nm (x # xs) =
     (case find_tag nm x of
        Some t \<Rightarrow> Some t
      | None \<Rightarrow> find_tag_in nm xs)"

text \<open>The names of all tags of a document, in document order.\<close>

fun tag_names :: "node \<Rightarrow> string list"
  and tag_names_in :: "node list \<Rightarrow> string list"
where
  "tag_names (NavigableString s) = []"
| "tag_names (Tag n a cs) = n # tag_names_in cs"
| "tag_names_in [] = []"
| "tag_names_in (x # xs) = tag_names x @ tag_names_in xs"

section \<open>When a loop completes\<close>

text \<open>
  Whether \<^verbatim>\<open>Tag.insert\<close> raises depends on the position and on the number of children only;
  \<open>inserts_ok ins k\<close> says that the calls \<open>ins\<close>, made in order on a tag with \<open>k\<close> children,
  all return. \<open>step_ok sel body t\<close> says that the loop body, if the loop selects \<open>t\<close>, runs
  on \<open>t\<close> without raising.
\<close>

definition tag_insert_ok :: "int \<Rightarrow> nat \<Rightarrow> bool" where
  "tag_insert_ok position k =
     (let n = int k; pos = min position n
      in \<not> (pos \<noteq> 0 \<and> \<not> py_index_ok n (pos - 1)) \<and> \<not> (pos < n \<and> \<not> py_index_ok n pos))"

fun inserts_ok :: "(int \<times> string) list \<Rightarrow> nat \<Rightarrow> bool" where
  "inserts_ok [] k = True"
| "inserts_ok ((i, s) # ins) k = (tag_insert_ok i k \<and> inserts_ok ins (Suc k))"

fun step_ok :: "(string \<Rightarrow> attrs \<Rightarrow> bool) \<Rightarrow> body \<Rightarrow> node \<Rightarrow> bool" where
  "step_ok sel body (NavigableString s) = True"
| "step_ok sel body (Tag n a cs) =
     (if sel n a then
        (case body n a of
           Inl e \<Rightarrow> False
         | Inr (a', ins) \<Rightarrow> inserts_ok ins (length cs))
      else True)"

section \<open>The file system\<close>

text \<open>
  The part of the file system the importer touches, as a tree: a directory lists its
  entries by name (the order of the list is the order \<^verbatim>\<open>os.listdir\<close> returns them in), a
  file holds its content, which for a template is the document BeautifulSoup parses from
  it. A path is the list of its components below the current directory, where the script
  must be started (\<^verbatim>\<open>source_static_dir.absolute()\<close> and \<^verbatim>\<open>source_static_dir\<close> name the same
  place).
\<close>

datatype fsnode =
    File "node list"
  | Dir "(string \<times> fsnode) list"

type_synonym path = "string list"

text \<open>Resolving a path: a missing component is \<^verbatim>\<open>FileNotFoundError\<close>, a component below a
  file is \<^verbatim>\<open>NotADirectoryError\<close>.\<close>

fun lookup :: "fsnode \<Rightarrow> path \<Rightarrow> exn + fsnode" where
  "lookup t [] = Inr t"
| "lookup t (n # p) =
     (case t of
        File d \<Rightarrow> Inl NotADirectoryError
      | Dir es \<Rightarrow>
          (case map_of es n of
             None \<Rightarrow> Inl FileNotFoundError
           | Some c \<Rightarrow> lookup c p))"

text \<open>\<^verbatim>\<open>os.makedirs(path, exist_ok=True)\<close>: creates the directory and every missing parent;
  an existing directory is accepted, a file in the way raises.\<close>

fun os_makedirs :: "fsnode \<Rightarrow> path \<Rightarrow> exn + fsnode" where
  "os_makedirs t [] =
     (case t of
        File d \<Rightarrow> Inl FileExistsError
      | Dir es \<Rightarrow> Inr t)"
| "os_makedirs t (n # p) =
     (case t of
        File d \<Rightarrow> Inl NotADirectoryError
      | Dir es \<Rightarrow>
          (case map_of es n of
             None \<Rightarrow>
               (case os_makedirs (Dir []) p of
                  Inl e \<Rightarrow> Inl e
                | Inr c \<Rightarrow> Inr (Dir (es @ [(n, c)])))
           | Some c \<Rightarrow>
               (case os_makedirs c p of
                  Inl e \<Rightarrow> Inl e
                | Inr c' \<Rightarrow> Inr (Dir (AList.update n c' es)))))"

text \<open>\<^verbatim>\<open>os.listdir(path)\<close>.\<close>

definition os_listdir :: "fsnode \<Rightarrow> path \<Rightarrow> exn + string list" where
  "os_listdir t p =
     (case lookup t p of
        Inl e \<Rightarrow> Inl e
      | Inr (File d) \<Rightarrow> Inl NotADirectoryError
      | Inr (Dir es) \<Rightarrow> Inr (map fst es))"

text \<open>Taking the entry at a path out of the tree, and putting an entry at a path whose
  parent directory exists (an entry already there is replaced).\<close>

fun detach :: "fsnode \<Rightarrow> path \<Rightarrow> fsnode" where
  "detach t [] = t"
| "detach t (n # p) =
     (case t of
        File d \<Rightarrow> t
      | Dir es \<Rightarrow>
          (if p = [] then Dir (AList.delete n es)
           else (case map_of es n of
                   None \<Rightarrow> t
                 | Some c \<Rightarrow> Dir (AList.update n (detach c p) es))))"

fun attach :: "fsnode \<Rightarrow> path \<Rightarrow> fsnode \<Rightarrow> fsnode" where
  "attach t [] x = x"
| "attach t (n # p) x =
     (case t of
        File d \<Rightarrow> t
      | Dir es \<Rightarrow>
          (if p = [] then Dir (AList.update n x es)
           else (case map_of es n of
                   None \<Rightarrow> t
                 | Some c \<Rightarrow> Dir (AList.update n (attach c p x) es))))"

text \<open>
  \<^verbatim>\<open>os.rename(src, dst)\<close> on Unix, as Python documents it: the source and the directory of
  the destination must exist; a file does not replace a directory nor a directory a file
  (\<^verbatim>\<open>IsADirectoryError\<close>, \<^verbatim>\<open>NotADirectoryError\<close>); a directory replaces an empty directory
  only (\<^verbatim>\<open>OSError\<close> otherwise); a directory cannot be moved below itself (\<^verbatim>\<open>OSError\<close>); a
  file silently replaces a file. Renaming an entry to itself does nothing.
\<close>

definition os_rename :: "fsnode \<Rightarrow> path \<Rightarrow> path \<Rightarrow> exn + fsnode" where
  "os_rename t src dst =
     (case lookup t src of
        Inl e \<Rightarrow> Inl e
      | Inr x \<Rightarrow>
          (if src = [] \<or> dst = [] then Inl OSError
           else (case lookup t (butlast dst) of
                   Inl e \<Rightarrow> Inl e
                 | Inr (File d) \<Rightarrow> Inl NotADirectoryError
                 | Inr (Dir ps) \<Rightarrow>
                     (if src = dst then Inr t
                      else if prefix src dst then Inl OSError
                      else (case lookup t dst of
                              Inl e \<Rightarrow> Inr (attach (detach t src) dst x)
                            | Inr (File d) \<Rightarrow>
                                (case x of
                                   File d' \<Rightarrow> Inr (attach (detach t src) dst x)
                                 | Dir es \<Rightarrow> Inl NotADirectoryError)
                            | Inr (Dir ds) \<Rightarrow>
                                (case x of
                                   File d' \<Rightarrow> Inl IsADirectoryError
                                 | Dir es \<Rightarrow>
                                     (if ds = [] then Inr (attach (detach t src) dst x)
                                      else Inl OSError)))))))"

section \<open>The importer\<close>

text \<open>
  The state a run works on: the file system, what has been written to standard output,
  and the two fields of \<^verbatim>\<open>WebflowImporter\<close> that are used (\<^verbatim>\<open>app_name\<close> is set to \<^verbatim>\<open>None\<close> and
  never read). \<^verbatim>\<open>static_files\<close> is the dict of the four categories. A method returns the
  exception it raises, if any, with the state it leaves behind.
\<close>

record state =
  fs :: fsnode
  stdout :: "string list"
  html_paths :: "path list"
  static_files :: "(string \<times> string list) list"

definition init_importer :: "fsnode \<Rightarrow> state" where
  "init_importer t =
     \<lparr> fs = t, stdout = [], html_paths = [],
       static_files = [(''js'', []), (''css'', []), (''images'', []), (''documents'', [])] \<rparr>"

text \<open>\<^verbatim>\<open>"/".join\<close> of the components, as the f-strings and \<^verbatim>\<open>os.path.join\<close> print a path.\<close>

fun path_str :: "path \<Rightarrow> string" where
  "path_str [] = []"
| "path_str [n] = n"
| "path_str (n # p) = n @ ''/'' @ path_str p"

text \<open>
  \<^verbatim>\<open>move_static_file\<close>. The target app is named by one path component (as \<^verbatim>\<open>web\<close> in the
  usage example), so \<^verbatim>\<open>f"{target_app}/static/{target_app}/{static_file_type}/"\<close> is the path
  below. \<^verbatim>\<open>os.makedirs\<close> is called before the \<^verbatim>\<open>try\<close>; the listing is taken once, before the
  first rename; \<^verbatim>\<open>self.static_files[static_file_type]\<close> raises \<^verbatim>\<open>KeyError\<close> for a category that
  is not in the dict; the \<^verbatim>\<open>except\<close> clause catches \<^verbatim>\<open>FileNotFoundError\<close> from anywhere in the
  loop and nothing else.
\<close>

definition dest_static_dir :: "string \<Rightarrow> string \<Rightarrow> path" where
  "dest_static_dir target_app static_file_type =
     [target_app, ''static'', target_app, static_file_type]"

definition moved_notice :: "string \<Rightarrow> path \<Rightarrow> string \<Rightarrow> string" where
  "moved_notice static_file_type dest file =
     ''+ Moved '' @ static_file_type @ '' ('' @ file @ '' to ''
       @ path_str (dest @ [file]) @ '')'' @ nl"

definition no_files_notice :: "string \<Rightarrow> string" where
  "no_files_notice static_file_type = ''No '' @ static_file_type @ '' files found. Continuing.'' @ nl"

fun move_static_loop :: "path \<Rightarrow> path \<Rightarrow> string \<Rightarrow> string list \<Rightarrow> state \<Rightarrow> exn option \<times> state" where
  "move_static_loop src dest static_file_type [] s = (None, s)"
| "move_static_loop src dest static_file_type (file # files) s =
     (case os_rename (fs s) (src @ [file]) (dest @ [file]) of
        Inl e \<Rightarrow> (Some e, s)
      | Inr t \<Rightarrow>
          (let s1 = s\<lparr> fs := t,
                       stdout := stdout s @ [moved_notice static_file_type dest file] \<rparr>
           in case map_of (static_files s1) static_file_type of
                None \<Rightarrow> (Some KeyError, s1)
              | Some moved \<Rightarrow>
                  move_static_loop src dest static_file_type files
                    (s1\<lparr> static_files :=
                          AList.update static_file_type (moved @ [file]) (static_files s1) \<rparr>)))"

definition except_file_not_found :: "string \<Rightarrow> exn option \<times> state \<Rightarrow> exn option \<times> state" where
  "except_file_not_found static_file_type r =
     (case r of
        (Some e, s) \<Rightarrow>
          (if e = FileNotFoundError
           then (None, s\<lparr> stdout := stdout s @ [no_files_notice static_file_type] \<rparr>)
           else (Some e, s))
      | (None, s) \<Rightarrow> (None, s))"

definition move_static_file :: "state \<Rightarrow> path \<Rightarrow> string \<Rightarrow> string \<Rightarrow> exn option \<times> state" where
  "move_static_file s work_dir target_app static_file_type =
     (let dest = dest_static_dir target_app static_file_type in
      case os_makedirs (fs s) dest of
        Inl e \<Rightarrow> (Some e, s)
      | Inr t \<Rightarrow>
          (let s1 = s\<lparr> fs := t \<rparr>;
               source_static_dir = work_dir @ [static_file_type]
           in except_file_not_found static_file_type
                (case os_listdir (fs s1) source_static_dir of
                   Inl e \<Rightarrow> (Some e, s1)
                 | Inr files \<Rightarrow>
                     move_static_loop source_static_dir dest static_file_type files s1)))"


text \<open>
  \<^verbatim>\<open>move_html_files\<close>: no \<^verbatim>\<open>try\<close> here, so every exception of \<^verbatim>\<open>os.listdir\<close> and \<^verbatim>\<open>os.rename\<close>
  propagates. \<^verbatim>\<open>file.endswith('.html')\<close> selects the entries; the new path of each is
  recorded in \<^verbatim>\<open>html_paths\<close>.
\<close>

definition dest_html_dir :: "string \<Rightarrow> path" where
  "dest_html_dir target_app = [target_app, ''templates'']"

fun move_html_loop :: "path \<Rightarrow> path \<Rightarrow> string list \<Rightarrow> state \<Rightarrow> exn option \<times> state" where
  "move_html_loop src dest [] s = (None, s)"
| "move_html_loop src dest (file # files) s =
     (if suffix ''.html'' file then
        (case os_rename (fs s) (src @ [file]) (dest @ [file]) of
           Inl e \<Rightarrow> (Some e, s)
         | Inr t \<Rightarrow>
             move_html_loop src dest files
               (s\<lparr> fs := t,
                    stdout := stdout s @
                      [''+ Moved html ('' @ file @ '' to '' @ path_str (dest @ [file]) @ '')'' @ nl],
                    html_paths := html_paths s @ [dest @ [file]] \<rparr>))
      else move_html_loop src dest files s)"

definition move_html_files :: "state \<Rightarrow> path \<Rightarrow> string \<Rightarrow> exn option \<times> state" where
  "move_html_files s work_dir target_app =
     (case os_makedirs (fs s) (dest_html_dir target_app) of
        Inl e \<Rightarrow> (Some e, s)
      | Inr t \<Rightarrow>
          (let s1 = s\<lparr> fs := t \<rparr> in
           case os_listdir (fs s1) work_dir of
             Inl e \<Rightarrow> (Some e, s1)
           | Inr files \<Rightarrow> move_html_loop work_dir (dest_html_dir target_app) files s1))"

text \<open>
  \<^verbatim>\<open>update_html\<close>: the file is opened and parsed (a missing path or a directory raises), the
  passes run on the document, and only then is the file opened for writing and the
  document written back; an exception in a pass leaves the file as it was. Serialising
  with \<^verbatim>\<open>prettify\<close> and parsing again are not modelled: a file holds its document. The lines
  this method prints are left out.
\<close>

definition open_read :: "fsnode \<Rightarrow> path \<Rightarrow> exn + node list" where
  "open_read t p =
     (case lookup t p of
        Inl e \<Rightarrow> Inl e
      | Inr (Dir es) \<Rightarrow> Inl IsADirectoryError
      | Inr (File soup) \<Rightarrow> Inr soup)"

definition update_html :: "state \<Rightarrow> path \<Rightarrow> string \<Rightarrow> exn option \<times> state" where
  "update_html s html_path target_app =
     (case open_read (fs s) html_path of
        Inl e \<Rightarrow> (Some e, s)
      | Inr soup \<Rightarrow>
          (case update_soup target_app soup of
             Inl e \<Rightarrow> (Some e, s)
           | Inr soup' \<Rightarrow> (None, s\<lparr> fs := attach (fs s) html_path (File soup') \<rparr>)))"

text \<open>\<^verbatim>\<open>update_htmls\<close>: \<^verbatim>\<open>for html_path in self.html_paths: self.update_html(...)\<close>; the first
  exception ends the loop.\<close>

fun update_htmls_loop :: "string \<Rightarrow> path list \<Rightarrow> state \<Rightarrow> exn option \<times> state" where
  "update_htmls_loop target_app [] s = (None, s)"
| "update_htmls_loop target_app (html_path # paths) s =
     (case update_html s html_path target_app of
        (Some e, s') \<Rightarrow> (Some e, s')
      | (None, s') \<Rightarrow> update_htmls_loop target_app paths s')"

definition update_htmls :: "state \<Rightarrow> string \<Rightarrow> exn option \<times> state" where
  "update_htmls s target_app = update_htmls_loop target_app (html_paths s) s"

text \<open>
  The importer's part of the main block: the four static moves, the move of the
  templates and their rewriting, in this order; an exception ends the run where it is
  raised, with the state as it is then (nothing is undone). Unpacking the archive before
  and the cleanup after these calls are outside the model.
\<close>

definition then_run :: "exn option \<times> state \<Rightarrow> (state \<Rightarrow> exn option \<times> state) \<Rightarrow> exn option \<times> state" where
  "then_run r k = (case r of (Some e, s) \<Rightarrow> (Some e, s) | (None, s) \<Rightarrow> k s)"

definition import_run :: "fsnode \<Rightarrow> path \<Rightarrow> string \<Rightarrow> exn option \<times> state" where
  "import_run t working_folder target_app =
     then_run (move_static_file (init_importer t) working_folder target_app ''js'') (\<lambda>s.
     then_run (move_static_file s working_folder target_app ''css'') (\<lambda>s.
     then_run (move_static_file s working_folder target_app ''images'') (\<lambda>s.
     then_run (move_static_file s working_folder target_app ''documents'') (\<lambda>s.
     then_run (move_html_files s working_folder target_app) (\<lambda>s.
     update_htmls s target_app)))))"

text \<open>
  A document is malformed for \<^verbatim>\<open>update_html\<close> when a \<^verbatim>\<open>link\<close> has no \<^verbatim>\<open>href\<close>, an \<^verbatim>\<open>img\<close> has no
  \<^verbatim>\<open>src\<close>, or it has no \<^verbatim>\<open>html\<close> or no \<^verbatim>\<open>body\<close> tag.
\<close>

fun lacks :: "string \<Rightarrow> string \<Rightarrow> node \<Rightarrow> bool" where
  "lacks nm k (NavigableString s) = False"
| "lacks nm k (Tag n a cs) = (n = nm \<and> tag_get a k = None)"

definition malformed :: "node list \<Rightarrow> bool" where
  "malformed soup =
     (list_ex (lacks ''link'' ''href'') (subnodes_in soup)
      \<or> list_ex (lacks ''img'' ''src'') (subnodes_in soup)
      \<or> find_tag_in ''html'' soup = None
      \<or> find_tag_in ''body'' soup = None)"

section \<open>Documents the passes accept\<close>

text \<open>
  \<open>loops a\<close>: the \<^verbatim>\<open>data-for\<close> value splits into more than one piece, the branch that inserts
  the loop markers. A tag is good for \<^verbatim>\<open>update_html\<close> when it has what its loop reads without
  a test: a \<^verbatim>\<open>link\<close> its \<^verbatim>\<open>href\<close>, an \<^verbatim>\<open>img\<close> its \<^verbatim>\<open>src\<close>, and a tag that gets loop markers at
  least one child (for \<^verbatim>\<open>insert(-1, ...)\<close>). A document is well formed when all its tags are
  good and it has an \<^verbatim>\<open>html\<close> and a \<^verbatim>\<open>body\<close> tag. \<open>attrs_grow a a'\<close>: no attribute is lost from
  \<open>a\<close> to \<open>a'\<close> and \<^verbatim>\<open>data-for\<close> keeps its value.
\<close>

definition loops :: "attrs \<Rightarrow> bool" where
  "loops a =
     (case tag_get a ''data-for'' of
        None \<Rightarrow> False
      | Some v \<Rightarrow> length (split_space v) > 1)"

fun link_good :: "node \<Rightarrow> bool" where
  "link_good (NavigableString s) = True"
| "link_good (Tag n a cs) = (n = ''link'' \<longrightarrow> tag_get a ''href'' \<noteq> None)"

fun img_good :: "node \<Rightarrow> bool" where
  "img_good (NavigableString s) = True"
| "img_good (Tag n a cs) = (n = ''img'' \<longrightarrow> tag_get a ''src'' \<noteq> None)"

fun loop_good :: "node \<Rightarrow> bool" where
  "loop_good (NavigableString s) = True"
| "loop_good (Tag n a cs) = (data_for_sel n a \<and> loops a \<longrightarrow> cs \<noteq> [])"

definition good_tag :: "node \<Rightarrow> bool" where
  "good_tag t = (link_good t \<and> img_good t \<and> loop_good t)"


definition attrs_grow :: "attrs \<Rightarrow> attrs \<Rightarrow> bool" where
  "attrs_grow a a' =
     (list_all (\<lambda>k. tag_get a' k \<noteq> None) (map fst a)
      \<and> tag_get a' ''data-for'' = tag_get a ''data-for'')"


text \<open>
  For stating what a second rewrite adds: \<open>tags_lead nm ps t\<close> says that \<open>t\<close>, if it is a tag
  named \<open>nm\<close>, has the nodes \<open>ps\<close> as its first children; \<open>first_children nm soup\<close> are the
  children of \<^verbatim>\<open>soup.find(nm)\<close>.
\<close>

fun tags_lead :: "string \<Rightarrow> node list \<Rightarrow> node \<Rightarrow> bool" where
  "tags_lead nm ps (NavigableString s) = True"
| "tags_lead nm ps (Tag n a cs) = (n = nm \<longrightarrow> prefix ps cs)"


text \<open>A small export, unpacked beside the app \<^verbatim>\<open>web\<close>, used to run the model.\<close>

definition example_tree :: fsnode where
  "example_tree =
     Dir [(''web'', Dir []),
          (''webflow_export'',
             Dir [(''css'', Dir [(''a.css'', File [NavigableString ''x'']), (''b.css'', File [])]),
                  (''index.html'', File [])])]"

text \<open>An export with no static files and three templates, the second with an \<^verbatim>\<open>img\<close> that
  has no \<^verbatim>\<open>src\<close>.\<close>

definition example_export :: fsnode where
  "example_export =
     Dir [(''export'',
         Dir [(''index.html'', File [Tag ''html'' [] [Tag ''body'' [] []]]),
              (''broken.html'', File [Tag ''html'' [] [Tag ''body'' [] [Tag ''img'' [] []]]]),
              (''last.html'', File [Tag ''html'' [] [Tag ''body'' [] []]])])]"

section \<open>Facts about the traversals\<close>

lemma subnodes_in_append: "subnodes_in (xs @ ys) = subnodes_in xs @ subnodes_in ys"
  by (induction xs) auto

lemma set_subnodes_in_take_drop:
  "set (subnodes_in (take k xs @ x # drop k xs)) = set (subnodes x) \<union> set (subnodes_in xs)"
proof -
  have "set (subnodes_in (take k xs @ drop k xs)) = set (subnodes_in xs)" by simp
  then show ?thesis
    unfolding subnodes_in_append by (auto simp: subnodes_in_append)
qed

lemma list_insert_subnodes:
  "set (subnodes_in (list_insert i x cs)) = set (subnodes x) \<union> set (subnodes_in cs)"
  unfolding list_insert_def Let_def by (rule set_subnodes_in_take_drop)

lemma tag_insert_subnodes:
  "tag_insert i x cs = Inr cs' \<Longrightarrow> set (subnodes_in cs') = set (subnodes x) \<union> set (subnodes_in cs)"
  by (auto simp: tag_insert_def Let_def list_insert_subnodes split: if_splits)

lemma insert_all_subnodes:
  "insert_all ins cs = Inr cs' \<Longrightarrow> set (subnodes_in cs) \<subseteq> set (subnodes_in cs')"
proof (induction ins arbitrary: cs)
  case Nil then show ?case by simp
next
  case (Cons p ins)
  obtain i s where p: "p = (i, s)" by (cases p)
  from Cons.prems p obtain c1 where 1: "tag_insert i (NavigableString s) cs = Inr c1"
    and 2: "insert_all ins c1 = Inr cs'"
    by (auto split: sum.splits)
  from tag_insert_subnodes[OF 1] Cons.IH[OF 2] show ?case by auto
qed

lemma for_each_reaches:
  "(for_each_tag sel body x = Inr x' \<longrightarrow>
      (\<forall>t \<in> set (subnodes x). \<exists>t'. for_each_tag sel body t = Inr t' \<and> t' \<in> set (subnodes x')))"
  "(for_each_tags sel body xs = Inr xs' \<longrightarrow>
      (\<forall>t \<in> set (subnodes_in xs). \<exists>t'. for_each_tag sel body t = Inr t' \<and> t' \<in> set (subnodes_in xs')))"
proof (induction sel body x and sel body xs arbitrary: x' and xs' rule: for_each_tag_for_each_tags.induct)
  case (1 sel body s)
  then show ?case by auto
next
  case (2 sel body n a cs)
  show ?case
  proof (intro impI ballI)
    fix t assume res: "for_each_tag sel body (Tag n a cs) = Inr x'" and t: "t \<in> set (subnodes (Tag n a cs))"
    show "\<exists>t'. for_each_tag sel body t = Inr t' \<and> t' \<in> set (subnodes x')"
    proof (cases "t = Tag n a cs")
      case True
      with res show ?thesis by (cases x') (auto split: if_splits sum.splits)
    next
      case False
      with t have tin: "t \<in> set (subnodes_in cs)" by simp
      show ?thesis
      proof (cases "sel n a")
        case True
        with res obtain a' ins cs' cs'' where b: "body n a = Inr (a', ins)"
          and c: "for_each_tags sel body cs = Inr cs'" and i: "insert_all ins cs' = Inr cs''"
          and x': "x' = Tag n a' cs''"
          by (auto split: sum.splits)
        from "2.IH"(1)[OF True b refl, of cs'] c tin
        obtain t' where "for_each_tag sel body t = Inr t'" "t' \<in> set (subnodes_in cs')" by blast
        with insert_all_subnodes[OF i] x' show ?thesis by auto
      next
        case False
        with res obtain cs' where c: "for_each_tags sel body cs = Inr cs'" and x': "x' = Tag n a cs'"
          by (auto split: sum.splits)
        from "2.IH"(2)[OF False, of cs'] c tin
        obtain t' where "for_each_tag sel body t = Inr t'" "t' \<in> set (subnodes_in cs')" by blast
        with x' show ?thesis by auto
      qed
    qed
  qed
next
  case (3 sel body)
  then show ?case by simp
next
  case (4 sel body x xs)
  show ?case
  proof (intro impI ballI)
    fix t assume res: "for_each_tags sel body (x # xs) = Inr xs'" and t: "t \<in> set (subnodes_in (x # xs))"
    from res obtain y ys where y: "for_each_tag sel body x = Inr y" and ys: "for_each_tags sel body xs = Inr ys"
      and xs': "xs' = y # ys" by (auto split: sum.splits)
    from t consider "t \<in> set (subnodes x)" | "t \<in> set (subnodes_in xs)" by auto
    then show "\<exists>t'. for_each_tag sel body t = Inr t' \<and> t' \<in> set (subnodes_in xs')"
    proof cases
      case 1
      with "4.IH"(1)[of y] y xs' show ?thesis by auto
    next
      case 2
      with "4.IH"(2)[OF y, of ys] ys xs' show ?thesis by auto
    qed
  qed
qed

lemma for_each_total:
  assumes "\<And>n a. sel n a \<Longrightarrow> \<exists>a'. body n a = Inr (a', [])"
  shows "\<exists>x'. for_each_tag sel body x = Inr x'"
    and "\<exists>xs'. for_each_tags sel body xs = Inr xs'"
  using assms
proof (induction sel body x and sel body xs rule: for_each_tag_for_each_tags.induct)
  case (1 sel body s)
  show ?case by simp
next
  case (2 sel body n a cs)
  show ?case
  proof (cases "sel n a")
    case True
    from "2.prems"[OF True] obtain a' where b: "body n a = Inr (a', [])" by blast
    from "2.IH"(1)[OF True b refl "2.prems"] obtain cs' where "for_each_tags sel body cs = Inr cs'"
      by blast
    with True b show ?thesis by simp
  next
    case False
    from "2.IH"(2)[OF False "2.prems"] obtain cs' where "for_each_tags sel body cs = Inr cs'"
      by blast
    with False show ?thesis by simp
  qed
next
  case (3 sel body)
  show ?case by simp
next
  case (4 sel body x xs)
  from "4.IH"(1)[OF "4.prems"] obtain y where y: "for_each_tag sel body x = Inr y" by blast
  from "4.IH"(2)[OF y "4.prems"] obtain ys where "for_each_tags sel body xs = Inr ys" by blast
  with y show ?case by simp
qed

lemma for_each_tags_strings:
  "list_all is_string cs \<Longrightarrow> for_each_tags sel body cs = Inr cs"
proof (induction cs)
  case Nil
  show ?case by simp
next
  case (Cons c cs)
  then show ?case by (cases c) simp_all
qed



lemma tag_insert_front: "tag_insert 0 x cs = Inr (x # cs)"
  by (simp add: tag_insert_def list_insert_def py_index_ok_def)

lemma tag_names_in_append: "tag_names_in (xs @ ys) = tag_names_in xs @ tag_names_in ys"
  by (induction xs) auto

lemma tag_insert_length: "tag_insert i x cs = Inr cs' \<Longrightarrow> length cs' = Suc (length cs)"
  by (auto simp: tag_insert_def list_insert_def Let_def split: if_splits)

lemma tag_insert_names:
  "tag_insert i (NavigableString s) cs = Inr cs' \<Longrightarrow> tag_names_in cs' = tag_names_in cs"
proof -
  assume "tag_insert i (NavigableString s) cs = Inr cs'"
  then obtain k where "cs' = take k cs @ NavigableString s # drop k cs"
    by (auto simp: tag_insert_def list_insert_def Let_def split: if_splits)
  then have "tag_names_in cs' = tag_names_in (take k cs) @ tag_names_in (drop k cs)"
    by (simp add: tag_names_in_append)
  also have "\<dots> = tag_names_in (take k cs @ drop k cs)"
    by (simp only: tag_names_in_append)
  also have "\<dots> = tag_names_in cs" by simp
  finally show ?thesis .
qed

lemma insert_all_names: "insert_all ins cs = Inr cs' \<Longrightarrow> tag_names_in cs' = tag_names_in cs"
proof (induction ins arbitrary: cs)
  case Nil
  then show ?case by simp
next
  case (Cons p ins)
  obtain i s where p: "p = (i, s)" by (cases p)
  from Cons.prems p obtain c1 where 1: "tag_insert i (NavigableString s) cs = Inr c1"
    and 2: "insert_all ins c1 = Inr cs'"
    by (auto split: sum.splits)
  from tag_insert_names[OF 1] Cons.IH[OF 2] show ?case by simp
qed

lemma for_each_names:
  "for_each_tag sel body x = Inr x' \<longrightarrow> tag_names x' = tag_names x"
  "for_each_tags sel body xs = Inr xs' \<longrightarrow> tag_names_in xs' = tag_names_in xs"
proof (induction sel body x and sel body xs arbitrary: x' and xs'
    rule: for_each_tag_for_each_tags.induct)
  case (1 sel body s)
  show ?case by auto
next
  case (2 sel body n a cs)
  show ?case
  proof (cases "sel n a")
    case True
    show ?thesis
    proof
      assume res: "for_each_tag sel body (Tag n a cs) = Inr x'"
      with True obtain a' ins cs' cs'' where b: "body n a = Inr (a', ins)"
        and c: "for_each_tags sel body cs = Inr cs'" and i: "insert_all ins cs' = Inr cs''"
        and x': "x' = Tag n a' cs''"
        by (auto split: sum.splits)
      from "2.IH"(1)[OF True b refl, of cs'] c insert_all_names[OF i] x'
      show "tag_names x' = tag_names (Tag n a cs)" by simp
    qed
  next
    case False
    show ?thesis
    proof
      assume res: "for_each_tag sel body (Tag n a cs) = Inr x'"
      with False obtain cs' where c: "for_each_tags sel body cs = Inr cs'" and x': "x' = Tag n a cs'"
        by (auto split: sum.splits)
      from "2.IH"(2)[OF False, of cs'] c x'
      show "tag_names x' = tag_names (Tag n a cs)" by simp
    qed
  qed
next
  case (3 sel body)
  show ?case by simp
next
  case (4 sel body x xs)
  show ?case
  proof
    assume res: "for_each_tags sel body (x # xs) = Inr xs'"
    then obtain y ys where y: "for_each_tag sel body x = Inr y"
      and ys: "for_each_tags sel body xs = Inr ys" and xs': "xs' = y # ys"
      by (auto split: sum.splits)
    from "4.IH"(1)[of y] "4.IH"(2)[OF y, of ys] y ys xs'
    show "tag_names_in xs' = tag_names_in (x # xs)" by simp
  qed
qed

lemma modify_first_None:
  "(modify_first nm g x = None) = (find_tag nm x = None)"
  "(modify_first_in nm g xs = None) = (find_tag_in nm xs = None)"
  by (induction nm g x and nm g xs rule: modify_first_modify_first_in.induct)
     (auto split: option.splits)

lemma modify_first_find:
  "modify_first nm g x = Some x' \<longrightarrow>
     (\<exists>a cs. find_tag nm x = Some (Tag nm a cs) \<and> find_tag nm x' = Some (Tag nm a (g cs)))"
  "modify_first_in nm g xs = Some xs' \<longrightarrow>
     (\<exists>a cs. find_tag_in nm xs = Some (Tag nm a cs) \<and> find_tag_in nm xs' = Some (Tag nm a (g cs)))"
proof (induction nm g x and nm g xs arbitrary: x' and xs' rule: modify_first_modify_first_in.induct)
  case (1 nm g s)
  show ?case by simp
next
  case (2 nm g n a cs)
  show ?case
  proof (cases "n = nm")
    case True
    then show ?thesis by auto
  next
    case False
    with "2.IH"[OF False] show ?thesis by (auto split: option.splits)
  qed
next
  case (3 nm g)
  show ?case by simp
next
  case (4 nm g x xs)
  show ?case
  proof (cases "modify_first nm g x")
    case None
    then have f: "find_tag nm x = None" by (simp add: modify_first_None)
    have nf: "find_tag nm x = None" if "modify_first nm g x = None" for g
      using that by (simp add: modify_first_None)
    show ?thesis
    proof
      assume "modify_first_in nm g (x # xs) = Some xs'"
      with None obtain ys where ys: "modify_first_in nm g xs = Some ys" and xs': "xs' = x # ys"
        by (auto split: option.splits)
      from "4.IH"(2)[OF None, of ys] ys obtain a cs where
        "find_tag_in nm xs = Some (Tag nm a cs)" "find_tag_in nm ys = Some (Tag nm a (g cs))"
        by blast
      with f xs' show "\<exists>a cs. find_tag_in nm (x # xs) = Some (Tag nm a cs) \<and>
          find_tag_in nm xs' = Some (Tag nm a (g cs))"
        by simp
    qed
  next
    case (Some y)
    with "4.IH"(1)[of y] show ?thesis by (auto split: option.splits)
  qed
qed

section \<open>The data-for pass\<close>

text \<open>
  C1 (the code at an input that shows the defect). On a list with two items and
  \<^verbatim>\<open>data-for="item in items"\<close>, \<^verbatim>\<open>tag.insert(-1, "{% endfor %}")\<close> puts the closing marker
  before the last child, not after it: the second item is left outside the loop.
\<close>

theorem data_for_loop_endfor_before_last_child:
  "data_for_pass
     [Tag ''ul'' [(''data-for'', ''item in items'')]
        [Tag ''li'' [] [NavigableString ''a''], Tag ''li'' [] [NavigableString ''b'']]]
   = Inr [Tag ''ul'' [(''data-for'', ''item in items'')]
            [NavigableString ''{% for item in items %}'',
             Tag ''li'' [] [NavigableString ''a''],
             NavigableString ''{% endfor %}'',
             Tag ''li'' [] [NavigableString ''b'']]]"
  by (simp add: data_for_pass_def data_for_sel_def data_for_body_def tag_get_def
      tag_insert_def list_insert_def py_index_ok_def)




lemma tag_insert_succeeds: "(\<exists>cs'. tag_insert i x cs = Inr cs') = tag_insert_ok i (length cs)"
proof -
  define n where "n = int (length cs)"
  define pos where "pos = min i n"
  define A where "A = (pos \<noteq> 0 \<and> \<not> py_index_ok n (pos - 1))"
  define B where "B = (pos < n \<and> \<not> py_index_ok n pos)"
  have 1: "tag_insert i x cs =
      (if A then Inl IndexError else if B then Inl IndexError else Inr (list_insert pos x cs))"
    unfolding tag_insert_def Let_def A_def B_def pos_def n_def ..
  have 2: "tag_insert_ok i (length cs) = (\<not> A \<and> \<not> B)"
    unfolding tag_insert_ok_def Let_def A_def B_def pos_def n_def ..
  show ?thesis unfolding 1 2 by (cases A; cases B; simp)
qed

lemma insert_all_succeeds: "(\<exists>cs'. insert_all ins cs = Inr cs') = inserts_ok ins (length cs)"
proof (induction ins arbitrary: cs)
  case Nil
  show ?case by simp
next
  case (Cons p ins)
  obtain i s where p: "p = (i, s)" by (cases p)
  show ?case
  proof (cases "tag_insert i (NavigableString s) cs")
    case (Inl e)
    with tag_insert_succeeds[of i "NavigableString s" cs] p show ?thesis by simp
  next
    case (Inr c1)
    with tag_insert_succeeds[of i "NavigableString s" cs] tag_insert_length[OF Inr] Cons.IH[of c1] p
    show ?thesis by simp
  qed
qed

lemma for_each_length:
  "for_each_tags sel body xs = Inr xs' \<Longrightarrow> length xs' = length xs"
proof (induction xs arbitrary: xs')
  case Nil
  then show ?case by simp
next
  case (Cons x xs)
  then show ?case by (auto split: sum.splits)
qed

lemma for_each_succeeds:
  "(\<exists>x'. for_each_tag sel body x = Inr x') = (\<forall>t \<in> set (subnodes x). step_ok sel body t)"
  "(\<exists>xs'. for_each_tags sel body xs = Inr xs') = (\<forall>t \<in> set (subnodes_in xs). step_ok sel body t)"
proof (induction sel body x and sel body xs rule: for_each_tag_for_each_tags.induct)
  case (1 sel body s)
  show ?case by simp
next
  case (2 sel body n a cs)
  show ?case
  proof (cases "sel n a")
    case False
    with "2.IH"(2)[OF False] show ?thesis
      by (cases "for_each_tags sel body cs") auto
  next
    case True
    show ?thesis
    proof (cases "body n a")
      case (Inl e)
      with True show ?thesis by simp
    next
      case (Inr r)
      obtain a' ins where r: "r = (a', ins)" by (cases r)
      note ih = "2.IH"(1)[OF True Inr r[symmetric]]
      show ?thesis
      proof (cases "for_each_tags sel body cs")
        case (Inl e)
        with ih True Inr r show ?thesis by auto
      next
        case c: (Inr cs')
        from for_each_length[OF c] insert_all_succeeds[of ins cs']
        have "(\<exists>cs''. insert_all ins cs' = Inr cs'') = inserts_ok ins (length cs)" by simp
        with ih True Inr r c show ?thesis
          by (cases "insert_all ins cs'") auto
      qed
    qed
  qed
next
  case (3 sel body)
  show ?case by simp
next
  case (4 sel body x xs)
  show ?case
  proof (cases "for_each_tag sel body x")
    case (Inl e)
    with "4.IH"(1) show ?thesis by auto
  next
    case (Inr y)
    with "4.IH"(1) "4.IH"(2)[OF Inr] show ?thesis
      by (cases "for_each_tags sel body xs") auto
  qed
qed

section \<open>The form pass and the appended script\<close>

lemma find_tag_names:
  "(find_tag nm x \<noteq> None) = (nm \<in> set (tag_names x))"
  "(find_tag_in nm xs \<noteq> None) = (nm \<in> set (tag_names_in xs))"
  by (induction nm x and nm xs rule: find_tag_find_tag_in.induct) (auto split: option.splits)

lemma modify_first_names_split:
  assumes g: "\<And>cs. tag_names_in (g cs) = tag_names_in cs @ extra"
  shows "modify_first nm g x = Some x' \<longrightarrow>
     (\<exists>pre post. tag_names x = pre @ post \<and> tag_names x' = pre @ extra @ post)"
    and "modify_first_in nm g xs = Some xs' \<longrightarrow>
     (\<exists>pre post. tag_names_in xs = pre @ post \<and> tag_names_in xs' = pre @ extra @ post)"
  using g
proof (induction nm g x and nm g xs arbitrary: x' and xs'
    rule: modify_first_modify_first_in.induct)
  case (1 nm g s)
  show ?case by simp
next
  case (2 nm g n a cs)
  show ?case
  proof
    assume m: "modify_first nm g (Tag n a cs) = Some x'"
    show "\<exists>pre post. tag_names (Tag n a cs) = pre @ post \<and> tag_names x' = pre @ extra @ post"
    proof (cases "n = nm")
      case True
      with m have "x' = Tag n a (g cs)" by simp
      then have "tag_names (Tag n a cs) = (n # tag_names_in cs) @ []
          \<and> tag_names x' = (n # tag_names_in cs) @ extra @ []"
        by (simp add: "2.prems")
      then show ?thesis by blast
    next
      case False
      with m obtain cs' where c: "modify_first_in nm g cs = Some cs'" and x': "x' = Tag n a cs'"
        by (auto split: option.splits)
      from "2.IH"[OF False "2.prems", of cs'] c obtain pre post
        where "tag_names_in cs = pre @ post" "tag_names_in cs' = pre @ extra @ post"
        by blast
      with x' have "tag_names (Tag n a cs) = (n # pre) @ post
          \<and> tag_names x' = (n # pre) @ extra @ post"
        by simp
      then show ?thesis by blast
    qed
  qed
next
  case (3 nm g)
  show ?case by simp
next
  case (4 nm g x xs)
  show ?case
  proof
    assume m: "modify_first_in nm g (x # xs) = Some xs'"
    show "\<exists>pre post. tag_names_in (x # xs) = pre @ post \<and> tag_names_in xs' = pre @ extra @ post"
    proof (cases "modify_first nm g x")
      case None
      with m obtain ys where ys: "modify_first_in nm g xs = Some ys" and xs': "xs' = x # ys"
        by (auto split: option.splits)
      from "4.IH"(2)[OF None "4.prems", of ys] ys obtain pre post
        where "tag_names_in xs = pre @ post" "tag_names_in ys = pre @ extra @ post"
        by blast
      with xs' have "tag_names_in (x # xs) = (tag_names x @ pre) @ post
          \<and> tag_names_in xs' = (tag_names x @ pre) @ extra @ post"
        by simp
      then show ?thesis by blast
    next
      case (Some y)
      with m have xs': "xs' = y # xs" by simp
      from "4.IH"(1)[OF "4.prems", of y] Some obtain pre post
        where "tag_names x = pre @ post" "tag_names y = pre @ extra @ post"
        by blast
      with xs' have "tag_names_in (x # xs) = pre @ (post @ tag_names_in xs)
          \<and> tag_names_in xs' = pre @ extra @ (post @ tag_names_in xs)"
        by simp
      then show ?thesis by blast
    qed
  qed
qed

lemma modify_first_append_names:
  assumes "modify_first_in nm (\<lambda>cs. cs @ [t]) xs = Some xs'"
  shows "count_list (tag_names_in xs') z = count_list (tag_names_in xs) z + count_list (tag_names t) z"
proof -
  have "tag_names_in (cs @ [t]) = tag_names_in cs @ tag_names t" for cs
    by (simp add: tag_names_in_append)
  from modify_first_names_split(2)[of "\<lambda>cs. cs @ [t]" "tag_names t" nm xs xs', OF this] assms
  obtain pre post where "tag_names_in xs = pre @ post" "tag_names_in xs' = pre @ tag_names t @ post"
    by blast
  then show ?thesis by simp
qed

lemma form_pass_total: "\<exists>s1. form_pass soup = Inr s1"
proof -
  have "step_ok (\<lambda>n a. n = ''form'') form_body t" for t
    by (cases t) (simp_all add: form_body_def tag_insert_ok_def py_index_ok_def)
  then show ?thesis
    unfolding form_pass_def using for_each_succeeds(2)[of "\<lambda>n a. n = ''form''" form_body soup]
    by blast
qed

text \<open>
  C5. On a document with a \<^verbatim>\<open>body\<close>, the form loop completes and puts \<^verbatim>\<open>{% csrf_token %}\<close> first
  among the children of every \<^verbatim>\<open>form\<close> of the document; the step after the loop then
  appends the one script tag holding \<^verbatim>\<open>make_forms_async\<close> as last child of the body, and
  the document has exactly one more \<^verbatim>\<open>script\<close> tag than before, whatever the number of
  forms.
\<close>

theorem form_pass_csrf_and_one_script:
  assumes "find_tag_in ''body'' soup \<noteq> None"
  shows "\<exists>s1 s2 b bcs.
           form_pass soup = Inr s1 \<and> async_script_step s1 = Inr s2
         \<and> (\<forall>a cs. Tag ''form'' a cs \<in> set (subnodes_in soup) \<longrightarrow>
               (\<exists>cs'. form_pass cs = Inr cs'
                  \<and> Tag ''form'' a (NavigableString csrf_tag # cs') \<in> set (subnodes_in s1)))
         \<and> find_tag_in ''body'' s1 = Some (Tag ''body'' b bcs)
         \<and> find_tag_in ''body'' s2 = Some (Tag ''body'' b (bcs @ [script_tag]))
         \<and> count_list (tag_names_in s2) ''script''
             = count_list (tag_names_in soup) ''script'' + 1"
proof -
  obtain s1 where s1: "form_pass soup = Inr s1" using form_pass_total by blast
  then have f1: "for_each_tags (\<lambda>n a. n = ''form'') form_body soup = Inr s1"
    by (simp add: form_pass_def)
  from for_each_names(2)[of "\<lambda>n a. n = ''form''" form_body soup s1] f1
  have names: "tag_names_in s1 = tag_names_in soup" by simp
  from assms have "''body'' \<in> set (tag_names_in soup)" by (simp only: find_tag_names(2))
  with names have "''body'' \<in> set (tag_names_in s1)" by simp
  then have "find_tag_in ''body'' s1 \<noteq> None" by (simp only: find_tag_names(2))
  then obtain s2 where m: "modify_first_in ''body'' (\<lambda>cs. cs @ [script_tag]) s1 = Some s2"
    using modify_first_None(2)[of "''body''" "\<lambda>cs. cs @ [script_tag]" s1] by auto
  then have s2: "async_script_step s1 = Inr s2" by (simp add: async_script_step_def found_def)
  from modify_first_find(2)[of "''body''" "\<lambda>cs. cs @ [script_tag]" s1 s2] m
  obtain b bcs where b1: "find_tag_in ''body'' s1 = Some (Tag ''body'' b bcs)"
    and b2: "find_tag_in ''body'' s2 = Some (Tag ''body'' b (bcs @ [script_tag]))"
    by blast
  from modify_first_append_names[OF m, of "''script''"] names
  have cnt: "count_list (tag_names_in s2) ''script'' = count_list (tag_names_in soup) ''script'' + 1"
    by (simp add: script_tag_def)
  have forms: "\<exists>cs'. form_pass cs = Inr cs'
      \<and> Tag ''form'' a (NavigableString csrf_tag # cs') \<in> set (subnodes_in s1)"
    if t: "Tag ''form'' a cs \<in> set (subnodes_in soup)" for a cs
  proof -
    from for_each_reaches(2)[of "\<lambda>n a. n = ''form''" form_body soup s1] f1 t
    obtain t' where 1: "for_each_tag (\<lambda>n a. n = ''form'') form_body (Tag ''form'' a cs) = Inr t'"
      and 2: "t' \<in> set (subnodes_in s1)"
      by blast
    from 1 obtain cs' where "for_each_tags (\<lambda>n a. n = ''form'') form_body cs = Inr cs'"
      and "t' = Tag ''form'' a (NavigableString csrf_tag # cs')"
      by (auto simp: form_body_def tag_insert_front split: sum.splits)
    with 2 show ?thesis unfolding form_pass_def by blast
  qed
  from s1 s2 forms b1 b2 cnt show ?thesis by blast
qed

theorem form_pass_csrf_and_one_script_witness:
  "\<exists>s1 s2. form_pass [Tag ''html'' [] [Tag ''body'' [] [Tag ''form'' [] [], Tag ''form'' [] []]]] = Inr s1
     \<and> Tag ''form'' [] [NavigableString csrf_tag] \<in> set (subnodes_in s1)
     \<and> async_script_step s1 = Inr s2
     \<and> find_tag_in ''body'' s2
        = Some (Tag ''body'' []
            [Tag ''form'' [] [NavigableString csrf_tag], Tag ''form'' [] [NavigableString csrf_tag],
             script_tag])
     \<and> count_list (tag_names_in s2) ''script'' = 1"
proof -
  let ?soup = "[Tag ''html'' [] [Tag ''body'' [] [Tag ''form'' [] [], Tag ''form'' [] []]]]"
  have run: "form_pass ?soup
      = Inr [Tag ''html'' [] [Tag ''body'' []
          [Tag ''form'' [] [NavigableString csrf_tag], Tag ''form'' [] [NavigableString csrf_tag]]]]"
    by (simp add: form_pass_def form_body_def tag_insert_front)
  have "find_tag_in ''body'' ?soup \<noteq> None" by simp
  from form_pass_csrf_and_one_script[OF this]
  obtain s1 s2 b bcs where s1: "form_pass ?soup = Inr s1"
    and s2: "async_script_step s1 = Inr s2"
    and forms: "\<forall>a cs. Tag ''form'' a cs \<in> set (subnodes_in ?soup) \<longrightarrow>
               (\<exists>cs'. form_pass cs = Inr cs'
                  \<and> Tag ''form'' a (NavigableString csrf_tag # cs') \<in> set (subnodes_in s1))"
    and b1: "find_tag_in ''body'' s1 = Some (Tag ''body'' b bcs)"
    and b2: "find_tag_in ''body'' s2 = Some (Tag ''body'' b (bcs @ [script_tag]))"
    and cnt: "count_list (tag_names_in s2) ''script''
             = count_list (tag_names_in ?soup) ''script'' + 1"
    by (elim exE conjE) (rule that, assumption+)
  have "Tag ''form'' [] [] \<in> set (subnodes_in ?soup)" by simp
  with forms obtain cs' where "form_pass [] = Inr cs'"
    and "Tag ''form'' [] (NavigableString csrf_tag # cs') \<in> set (subnodes_in s1)"
    by blast
  then have mem: "Tag ''form'' [] [NavigableString csrf_tag] \<in> set (subnodes_in s1)"
    by (auto simp: form_pass_def)
  from s1 run have s1_eq: "s1 = [Tag ''html'' [] [Tag ''body'' []
          [Tag ''form'' [] [NavigableString csrf_tag], Tag ''form'' [] [NavigableString csrf_tag]]]]"
    by simp
  from b1 have "b = [] \<and> bcs = [Tag ''form'' [] [NavigableString csrf_tag],
      Tag ''form'' [] [NavigableString csrf_tag]]"
    unfolding s1_eq by simp
  with b2 have body: "find_tag_in ''body'' s2
        = Some (Tag ''body'' []
            [Tag ''form'' [] [NavigableString csrf_tag], Tag ''form'' [] [NavigableString csrf_tag],
             script_tag])"
    by simp
  from cnt have one: "count_list (tag_names_in s2) ''script'' = 1" by simp
  from s1 mem s2 body one show ?thesis by blast
qed

section \<open>The img pass and \<^verbatim>\<open>srcset\<close>\<close>

lemma tag_get_set: "tag_get (tag_set k v a) k' = (if k' = k then Some v else tag_get a k')"
  by (simp add: tag_get_def tag_set_def update_conv')







section \<open>Facts about the file system\<close>

lemma map_of_snoc: "map_of (es @ [(n, c)]) m = (case map_of es m of Some v \<Rightarrow> Some v | None \<Rightarrow> if m = n then Some c else None)"
  by (induction es) auto

lemma makedirs_is_dir:
  "os_makedirs t p = Inr t' \<Longrightarrow> prefix q p \<Longrightarrow> \<exists>es. lookup t' q = Inr (Dir es)"
proof (induction p arbitrary: t t' q)
  case Nil
  then show ?case by (cases t) auto
next
  case (Cons n p)
  from Cons.prems(1) obtain es where t: "t = Dir es" by (cases t) auto
  show ?case
  proof (cases q)
    case Nil
    with Cons.prems(1) t show ?thesis by (auto split: option.splits sum.splits)
  next
    case q: (Cons m q')
    with Cons.prems(2) have m: "m = n" and pq: "prefix q' p" by auto
    show ?thesis
    proof (cases "map_of es n")
      case None
      with Cons.prems(1) t obtain c where c: "os_makedirs (Dir []) p = Inr c"
        and t': "t' = Dir (es @ [(n, c)])"
        by (auto split: sum.splits)
      from Cons.IH[OF c pq] t' q m None show ?thesis by (simp add: map_of_snoc del: map_of_append)
    next
      case (Some d)
      with Cons.prems(1) t obtain c where c: "os_makedirs d p = Inr c"
        and t': "t' = Dir (AList.update n c es)"
        by (auto split: sum.splits)
      from Cons.IH[OF c pq] t' q m show ?thesis by (simp add: update_conv')
    qed
  qed
qed

lemma lookup_empty_dir: "q \<noteq> [] \<Longrightarrow> lookup (Dir []) q = Inl FileNotFoundError"
  by (cases q) auto

lemma makedirs_frame:
  "os_makedirs t p = Inr t' \<Longrightarrow> \<not> prefix q p \<Longrightarrow> lookup t' q = lookup t q"
proof (induction p arbitrary: t t' q)
  case Nil
  then show ?case by (cases t) auto
next
  case (Cons n p)
  from Cons.prems(1) obtain es where t: "t = Dir es" by (cases t) auto
  from Cons.prems(2) obtain m q' where q: "q = m # q'" by (cases q) auto
  show ?case
  proof (cases "map_of es n")
    case None
    with Cons.prems(1) t obtain c where c: "os_makedirs (Dir []) p = Inr c"
      and t': "t' = Dir (es @ [(n, c)])"
      by (auto split: sum.splits)
    show ?thesis
    proof (cases "m = n")
      case True
      with Cons.prems(2) q have np: "\<not> prefix q' p" by simp
      then have "q' \<noteq> []" by auto
      with Cons.IH[OF c np] have "lookup c q' = Inl FileNotFoundError"
        by (simp add: lookup_empty_dir)
      with t t' q True None show ?thesis by (simp add: map_of_snoc del: map_of_append)
    next
      case False
      with t t' q show ?thesis by (simp add: map_of_snoc del: map_of_append split: option.splits)
    qed
  next
    case (Some d)
    with Cons.prems(1) t obtain c where c: "os_makedirs d p = Inr c"
      and t': "t' = Dir (AList.update n c es)"
      by (auto split: sum.splits)
    show ?thesis
    proof (cases "m = n")
      case True
      with Cons.prems(2) q have np: "\<not> prefix q' p" by simp
      from Cons.IH[OF c np] t t' q True Some show ?thesis by (simp add: update_conv')
    next
      case False
      with t t' q show ?thesis by (simp add: update_conv')
    qed
  qed
qed


lemma attach_frame:
  "p \<parallel> q \<Longrightarrow> lookup (attach t p x) q = lookup t q"
proof (induction p arbitrary: t q)
  case Nil
  then show ?case by simp
next
  case (Cons n p)
  from Cons.prems obtain m q' where q: "q = m # q'" by (cases q) auto
  show ?case
  proof (cases t)
    case (File d)
    then show ?thesis by simp
  next
    case (Dir es)
    show ?thesis
    proof (cases "m = n")
      case False
      with Dir q show ?thesis
        by (auto simp: update_conv' split: option.splits)
    next
      case True
      with Cons.prems q have par: "p \<parallel> q'" by (auto simp: parallel_def)
      then have "p \<noteq> []" by auto
      with Cons.IH[OF par] Dir q True show ?thesis
        by (auto simp: update_conv' split: option.splits)
    qed
  qed
qed











section \<open>Moving the static files\<close>


lemma makedirs_new_empty:
  "os_makedirs t p = Inr t' \<Longrightarrow> lookup t p = Inl FileNotFoundError \<Longrightarrow> lookup t' p = Inr (Dir [])"
proof (induction p arbitrary: t t')
  case Nil
  then show ?case by simp
next
  case (Cons n p)
  from Cons.prems(1) obtain es where t: "t = Dir es" by (cases t) auto
  show ?case
  proof (cases "map_of es n")
    case None
    with Cons.prems(1) t obtain c where c: "os_makedirs (Dir []) p = Inr c"
      and t': "t' = Dir (es @ [(n, c)])"
      by (auto split: sum.splits)
    have "lookup c p = Inr (Dir [])"
    proof (cases p)
      case Nil
      with c show ?thesis by simp
    next
      case (Cons m p')
      then have "lookup (Dir []) p = Inl FileNotFoundError" by simp
      from Cons.IH[OF c this] show ?thesis .
    qed
    with t' None show ?thesis by (simp add: map_of_snoc del: map_of_append)
  next
    case (Some d)
    with Cons.prems(1) t obtain c where c: "os_makedirs d p = Inr c"
      and t': "t' = Dir (AList.update n c es)"
      by (auto split: sum.splits)
    from Cons.prems(2) t Some have "lookup d p = Inl FileNotFoundError" by simp
    from Cons.IH[OF c this] t' show ?thesis by (simp add: update_conv')
  qed
qed

lemma move_static_file_absent:
  assumes mk: "os_makedirs (fs s) (dest_static_dir app cat) = Inr t"
    and absent: "lookup (fs s) (work_dir @ [cat]) = Inl FileNotFoundError"
    and np: "\<not> prefix (work_dir @ [cat]) (dest_static_dir app cat)"
  shows "move_static_file s work_dir app cat
           = (None, s\<lparr> fs := t, stdout := stdout s @ [no_files_notice cat] \<rparr>)"
proof -
  from makedirs_frame[OF mk np] absent
  have "lookup t (work_dir @ [cat]) = Inl FileNotFoundError" by simp
  then have "os_listdir t (work_dir @ [cat]) = Inl FileNotFoundError"
    by (simp add: os_listdir_def)
  with mk show ?thesis
    by (simp add: move_static_file_def Let_def except_file_not_found_def)
qed

text \<open>
  C8. Let the destination directory be creatable (\<^verbatim>\<open>os.makedirs\<close> returns) and let the source
  category directory \<^verbatim>\<open>work_dir/category\<close> not exist, the destination not lying at or below
  that missing path. Then \<^verbatim>\<open>move_static_file\<close> returns without an exception; the state it
  leaves differs from the one it found only by the directories \<^verbatim>\<open>os.makedirs\<close> made and by
  the one notice \<^verbatim>\<open>No <category> files found. Continuing.\<close> on standard output: nothing is
  recorded in \<^verbatim>\<open>static_files\<close>, and every path that is not the destination directory or
  one of its parents resolves as before, so nothing has been moved. This holds for every
  category name, the four supported ones among them.
\<close>

theorem missing_category_skipped:
  assumes "os_makedirs (fs s) (dest_static_dir app cat) = Inr t"
    and "lookup (fs s) (work_dir @ [cat]) = Inl FileNotFoundError"
    and "\<not> prefix (work_dir @ [cat]) (dest_static_dir app cat)"
  shows "\<exists>s'. move_static_file s work_dir app cat = (None, s')
           \<and> static_files s' = static_files s
           \<and> html_paths s' = html_paths s
           \<and> stdout s' = stdout s @ [no_files_notice cat]
           \<and> (\<forall>q. \<not> prefix q (dest_static_dir app cat) \<longrightarrow> lookup (fs s') q = lookup (fs s) q)"
proof -
  let ?s' = "s\<lparr> fs := t, stdout := stdout s @ [no_files_notice cat] \<rparr>"
  from move_static_file_absent[OF assms]
  have "move_static_file s work_dir app cat = (None, ?s')" .
  moreover have "\<forall>q. \<not> prefix q (dest_static_dir app cat) \<longrightarrow> lookup (fs ?s') q = lookup (fs s) q"
    using makedirs_frame[OF assms(1)] by simp
  ultimately show ?thesis by simp
qed

theorem missing_category_skipped_witness:
  "\<exists>s'. move_static_file (init_importer example_tree) [''webflow_export''] ''web'' ''js'' = (None, s')
     \<and> static_files s' = static_files (init_importer example_tree)
     \<and> stdout s' = [no_files_notice ''js'']
     \<and> lookup (fs s') [''webflow_export'', ''css'', ''a.css''] = Inr (File [NavigableString ''x''])"
proof -
  let ?s = "init_importer example_tree"
  have mk: "os_makedirs (fs ?s) (dest_static_dir ''web'' ''js'')
      = Inr (Dir [(''web'', Dir [(''static'', Dir [(''web'', Dir [(''js'', Dir [])])])]),
          (''webflow_export'',
             Dir [(''css'', Dir [(''a.css'', File [NavigableString ''x'']), (''b.css'', File [])]),
                  (''index.html'', File [])])])"
    by (simp add: init_importer_def example_tree_def dest_static_dir_def)
  have absent: "lookup (fs ?s) ([''webflow_export''] @ [''js'']) = Inl FileNotFoundError"
    by (simp add: init_importer_def example_tree_def)
  have np: "\<not> prefix ([''webflow_export''] @ [''js'']) (dest_static_dir ''web'' ''js'')"
    by (simp add: dest_static_dir_def)
  from missing_category_skipped[OF mk absent np]
  obtain s' where 1: "move_static_file ?s [''webflow_export''] ''web'' ''js'' = (None, s')"
    and 2: "static_files s' = static_files ?s"
    and 3: "stdout s' = stdout ?s @ [no_files_notice ''js'']"
    and 4: "\<forall>q. \<not> prefix q (dest_static_dir ''web'' ''js'') \<longrightarrow> lookup (fs s') q = lookup (fs ?s) q"
    by (elim exE conjE) (rule that, assumption+)
  from 4[rule_format, of "[''webflow_export'', ''css'', ''a.css'']"]
  have "lookup (fs s') [''webflow_export'', ''css'', ''a.css''] = Inr (File [NavigableString ''x''])"
    by (simp add: dest_static_dir_def init_importer_def example_tree_def)
  moreover from 3 have "stdout s' = [no_files_notice ''js'']" by (simp add: init_importer_def)
  ultimately show ?thesis using 1 2 by blast
qed

text \<open>
  C9. Under the same conditions, when the phase has been skipped the destination
  directory and all its parents exist as directories; and if the destination did not
  exist before, it is now an empty directory, so the file system is not the one the
  call found.
\<close>

theorem destination_created_when_skipped:
  assumes "os_makedirs (fs s) (dest_static_dir app cat) = Inr t"
    and "lookup (fs s) (work_dir @ [cat]) = Inl FileNotFoundError"
    and "\<not> prefix (work_dir @ [cat]) (dest_static_dir app cat)"
  shows "\<exists>s'. move_static_file s work_dir app cat = (None, s')
           \<and> (\<forall>q. prefix q (dest_static_dir app cat) \<longrightarrow> (\<exists>es. lookup (fs s') q = Inr (Dir es)))
           \<and> (lookup (fs s) (dest_static_dir app cat) = Inl FileNotFoundError \<longrightarrow>
                lookup (fs s') (dest_static_dir app cat) = Inr (Dir []) \<and> fs s' \<noteq> fs s)"
proof -
  let ?s' = "s\<lparr> fs := t, stdout := stdout s @ [no_files_notice cat] \<rparr>"
  from move_static_file_absent[OF assms]
  have run: "move_static_file s work_dir app cat = (None, ?s')" .
  have dirs: "\<forall>q. prefix q (dest_static_dir app cat) \<longrightarrow> (\<exists>es. lookup (fs ?s') q = Inr (Dir es))"
    using makedirs_is_dir[OF assms(1)] by simp
  have new: "lookup (fs ?s') (dest_static_dir app cat) = Inr (Dir []) \<and> fs ?s' \<noteq> fs s"
    if "lookup (fs s) (dest_static_dir app cat) = Inl FileNotFoundError"
  proof -
    from makedirs_new_empty[OF assms(1) that]
    have e: "lookup t (dest_static_dir app cat) = Inr (Dir [])" .
    with that have "t \<noteq> fs s" by auto
    with e show ?thesis by simp
  qed
  from run dirs new show ?thesis by blast
qed

theorem destination_created_when_skipped_witness:
  "\<exists>s'. move_static_file (init_importer example_tree) [''webflow_export''] ''web'' ''js'' = (None, s')
     \<and> (\<exists>es. lookup (fs s') [''web'', ''static''] = Inr (Dir es))
     \<and> lookup (fs s') [''web'', ''static'', ''web'', ''js''] = Inr (Dir [])
     \<and> fs s' \<noteq> example_tree"
proof -
  let ?s = "init_importer example_tree"
  have mk: "os_makedirs (fs ?s) (dest_static_dir ''web'' ''js'')
      = Inr (Dir [(''web'', Dir [(''static'', Dir [(''web'', Dir [(''js'', Dir [])])])]),
          (''webflow_export'',
             Dir [(''css'', Dir [(''a.css'', File [NavigableString ''x'']), (''b.css'', File [])]),
                  (''index.html'', File [])])])"
    by (simp add: init_importer_def example_tree_def dest_static_dir_def)
  have absent: "lookup (fs ?s) ([''webflow_export''] @ [''js'']) = Inl FileNotFoundError"
    by (simp add: init_importer_def example_tree_def)
  have np: "\<not> prefix ([''webflow_export''] @ [''js'']) (dest_static_dir ''web'' ''js'')"
    by (simp add: dest_static_dir_def)
  have before: "lookup (fs ?s) (dest_static_dir ''web'' ''js'') = Inl FileNotFoundError"
    by (simp add: init_importer_def example_tree_def dest_static_dir_def)
  have pre: "prefix [''web'', ''static''] (dest_static_dir ''web'' ''js'')"
    by (simp add: dest_static_dir_def)
  from destination_created_when_skipped[OF mk absent np]
  obtain s' where 1: "move_static_file ?s [''webflow_export''] ''web'' ''js'' = (None, s')"
    and dirs: "\<forall>q. prefix q (dest_static_dir ''web'' ''js'') \<longrightarrow> (\<exists>es. lookup (fs s') q = Inr (Dir es))"
    and 2: "lookup (fs ?s) (dest_static_dir ''web'' ''js'') = Inl FileNotFoundError \<longrightarrow>
                lookup (fs s') (dest_static_dir ''web'' ''js'') = Inr (Dir []) \<and> fs s' \<noteq> fs ?s"
    by (elim exE conjE) (rule that, assumption+)
  from dirs pre have 3: "\<exists>es. lookup (fs s') [''web'', ''static''] = Inr (Dir es)" by blast
  from 2 before have "lookup (fs s') [''web'', ''static'', ''web'', ''js''] = Inr (Dir [])"
    and "fs s' \<noteq> example_tree"
    by (simp_all add: dest_static_dir_def init_importer_def)
  with 1 3 show ?thesis by blast
qed



section \<open>Malformed documents\<close>

lemma and_then_Inr: "(and_then r k = Inr y) = (\<exists>x. r = Inr x \<and> k x = Inr y)"
  by (cases r) (simp_all add: and_then_def)

lemma for_each_fails:
  assumes "Tag n a cs \<in> set (subnodes_in xs)" and "sel n a" and "body n a = Inl e"
  shows "for_each_tags sel body xs \<noteq> Inr xs'"
proof
  assume "for_each_tags sel body xs = Inr xs'"
  with for_each_succeeds(2)[of sel body xs] assms(1) have "step_ok sel body (Tag n a cs)"
    by blast
  with assms(2,3) show False by simp
qed

lemma for_each_keeps_unselected:
  assumes "for_each_tags sel body xs = Inr xs'"
    and "Tag n a cs \<in> set (subnodes_in xs)" and "\<not> sel n a"
  shows "\<exists>cs'. Tag n a cs' \<in> set (subnodes_in xs')"
proof -
  from for_each_reaches(2)[of sel body xs xs'] assms(1,2)
  obtain t' where 1: "for_each_tag sel body (Tag n a cs) = Inr t'"
    and 2: "t' \<in> set (subnodes_in xs')"
    by blast
  from 1 assms(3) obtain cs' where "t' = Tag n a cs'" by (auto split: sum.splits)
  with 2 show ?thesis by blast
qed

lemma list_insert_front_names:
  "tag_names_in (list_insert 0 (NavigableString s) cs) = tag_names_in cs @ []"
  by (simp add: list_insert_def)

lemma load_static_step_names:
  "load_static_step xs = Inr ys \<Longrightarrow> tag_names_in ys = tag_names_in xs"
proof -
  assume "load_static_step xs = Inr ys"
  then have m: "modify_first_in ''html''
      (\<lambda>cs. list_insert 0 (NavigableString static_template_tag) cs) xs = Some ys"
    by (simp add: load_static_step_def found_def split: option.splits)
  from modify_first_names_split(2)[of
      "\<lambda>cs. list_insert 0 (NavigableString static_template_tag) cs" "[]" "''html''" xs ys,
      OF list_insert_front_names] m
  show ?thesis by auto
qed

lemma step_needs_tag:
  "find_tag_in nm xs = None \<Longrightarrow> found (modify_first_in nm g xs) = Inl AttributeError"
  using modify_first_None(2)[of nm g xs] by (simp add: found_def)

lemma update_soup_malformed:
  assumes "malformed soup"
  shows "\<exists>e. update_soup app soup = Inl e"
proof (cases "update_soup app soup")
  case (Inl e)
  then show ?thesis by blast
next
  case (Inr out)
  then obtain s1 s2 s3 s4 s5 s6 s7 where
    p1: "link_pass app soup = Inr s1" and p2: "img_pass app s1 = Inr s2"
    and p3: "script_pass app s2 = Inr s3" and p4: "lottie_pass app s3 = Inr s4"
    and p5: "data_for_pass s4 = Inr s5" and p6: "load_static_step s5 = Inr s6"
    and p7: "form_pass s6 = Inr s7" and p8: "async_script_step s7 = Inr out"
    unfolding update_soup_def and_then_Inr by blast
  have n1: "tag_names_in s1 = tag_names_in soup"
    using p1 for_each_names(2) unfolding link_pass_def by blast
  have n2: "tag_names_in s2 = tag_names_in s1"
    using p2 for_each_names(2) unfolding img_pass_def by blast
  have n3: "tag_names_in s3 = tag_names_in s2"
    using p3 for_each_names(2) unfolding script_pass_def by blast
  have n4: "tag_names_in s4 = tag_names_in s3"
    using p4 for_each_names(2) unfolding lottie_pass_def by blast
  have n5: "tag_names_in s5 = tag_names_in s4"
    using p5 for_each_names(2) unfolding data_for_pass_def by blast
  have n6: "tag_names_in s6 = tag_names_in s5"
    using p6 by (rule load_static_step_names)
  have n7: "tag_names_in s7 = tag_names_in s6"
    using p7 for_each_names(2) unfolding form_pass_def by blast
  from assms consider
      (link) "list_ex (lacks ''link'' ''href'') (subnodes_in soup)"
    | (img) "list_ex (lacks ''img'' ''src'') (subnodes_in soup)"
    | (html) "find_tag_in ''html'' soup = None"
    | (body) "find_tag_in ''body'' soup = None"
    unfolding malformed_def by auto
  then have False
  proof cases
    case link
    then obtain t where t: "t \<in> set (subnodes_in soup)" and l: "lacks ''link'' ''href'' t"
      by (auto simp: list_ex_iff)
    from l obtain a cs where "t = Tag ''link'' a cs" and "tag_get a ''href'' = None"
      by (cases t) auto
    with t for_each_fails[of "''link''" a cs soup "\<lambda>n a. n = ''link''" "link_body app" AttributeError s1]
      p1 show False by (simp add: link_pass_def link_body_def)
  next
    case img
    then obtain t where t: "t \<in> set (subnodes_in soup)" and l: "lacks ''img'' ''src'' t"
      by (auto simp: list_ex_iff)
    from l obtain a cs where t_eq: "t = Tag ''img'' a cs" and no: "tag_get a ''src'' = None"
      by (cases t) auto
    from for_each_keeps_unselected[of "\<lambda>n a. n = ''link''" "link_body app" soup s1 "''img''" a cs]
      p1 t t_eq obtain cs' where "Tag ''img'' a cs' \<in> set (subnodes_in s1)"
      by (auto simp: link_pass_def)
    with no for_each_fails[of "''img''" a cs' s1 "\<lambda>n a. n = ''img''" "img_body app" AttributeError s2]
      p2 show False by (simp add: img_pass_def img_body_def)
  next
    case html
    then have "''html'' \<notin> set (tag_names_in soup)" using find_tag_names(2)[of "''html''" soup] by simp
    with n1 n2 n3 n4 n5 have "''html'' \<notin> set (tag_names_in s5)" by simp
    then have "find_tag_in ''html'' s5 = None" using find_tag_names(2)[of "''html''" s5] by simp
    from step_needs_tag[OF this] p6 show False by (simp add: load_static_step_def)
  next
    case body
    then have "''body'' \<notin> set (tag_names_in soup)" using find_tag_names(2)[of "''body''" soup] by simp
    with n1 n2 n3 n4 n5 n6 n7 have "''body'' \<notin> set (tag_names_in s7)" by simp
    then have "find_tag_in ''body'' s7 = None" using find_tag_names(2)[of "''body''" s7] by simp
    from step_needs_tag[OF this] p8 show False by (simp add: async_script_step_def)
  qed
  then show ?thesis ..
qed

lemma update_html_frame:
  assumes "update_html s p app = (r, s')"
  shows "(\<forall>q. p \<parallel> q \<longrightarrow> lookup (fs s') q = lookup (fs s) q)
       \<and> stdout s' = stdout s \<and> html_paths s' = html_paths s \<and> static_files s' = static_files s"
  using assms
  by (auto simp: update_html_def attach_frame split: sum.splits)

lemma update_htmls_loop_frame:
  "update_htmls_loop app ps s = (r, s') \<Longrightarrow>
     (\<forall>q. (\<forall>p \<in> set ps. p \<parallel> q) \<longrightarrow> lookup (fs s') q = lookup (fs s) q)
       \<and> stdout s' = stdout s \<and> html_paths s' = html_paths s \<and> static_files s' = static_files s"
proof (induction ps arbitrary: s)
  case Nil
  then show ?case by simp
next
  case (Cons p ps)
  obtain r1 s1 where u: "update_html s p app = (r1, s1)" by (cases "update_html s p app")
  note f1 = update_html_frame[OF u]
  show ?case
  proof (cases r1)
    case (Some e)
    with u Cons.prems have "s' = s1" by simp
    with f1 show ?thesis by simp
  next
    case None
    with u Cons.prems have "update_htmls_loop app ps s1 = (r, s')" by simp
    from Cons.IH[OF this] f1 show ?thesis by simp
  qed
qed

lemma update_htmls_loop_append:
  "update_htmls_loop app xs s = (None, s1) \<Longrightarrow>
     update_htmls_loop app (xs @ ys) s = update_htmls_loop app ys s1"
proof (induction xs arbitrary: s)
  case Nil
  then show ?case by simp
next
  case (Cons p xs)
  obtain r1 s2 where u: "update_html s p app = (r1, s2)" by (cases "update_html s p app")
  with Cons.prems have r1: "r1 = None" by (cases r1) auto
  with u Cons.prems have "update_htmls_loop app xs s2 = (None, s1)" by simp
  from Cons.IH[OF this] u r1 show ?case by simp
qed

text \<open>
  C6. Let the documents before \<open>p\<close> in \<^verbatim>\<open>html_paths\<close> have been rewritten without an exception,
  leaving the state \<open>s1\<close>, and let the document at \<open>p\<close> be malformed (a \<^verbatim>\<open>link\<close> without
  \<^verbatim>\<open>href\<close>, an \<^verbatim>\<open>img\<close> without \<^verbatim>\<open>src\<close>, no \<^verbatim>\<open>html\<close> tag or no \<^verbatim>\<open>body\<close> tag). Then the passes
  raise on it; \<^verbatim>\<open>update_html\<close> returns that exception without writing the file; \<^verbatim>\<open>update_htmls\<close>
  ends with the same exception in the state \<open>s1\<close>, so no later document is read or
  written; the earlier documents stay rewritten, and every path that is not one of them
  (the moved static files, the later templates) resolves as the move phases left it;
  and a run whose move phases returned ends with this exception and this state.
\<close>

theorem malformed_document_aborts_run:
  assumes "html_paths s = pre @ p # post"
    and "update_htmls_loop app pre s = (None, s1)"
    and "open_read (fs s1) p = Inr soup"
    and "malformed soup"
  shows "\<exists>e. update_soup app soup = Inl e
           \<and> update_html s1 p app = (Some e, s1)
           \<and> update_htmls s app = (Some e, s1)
           \<and> (\<forall>q. (\<forall>p' \<in> set pre. p' \<parallel> q) \<longrightarrow> lookup (fs s1) q = lookup (fs s) q)
           \<and> static_files s1 = static_files s
           \<and> (\<forall>t wd sa sb sc sd.
                  move_static_file (init_importer t) wd app ''js'' = (None, sa)
                \<and> move_static_file sa wd app ''css'' = (None, sb)
                \<and> move_static_file sb wd app ''images'' = (None, sc)
                \<and> move_static_file sc wd app ''documents'' = (None, sd)
                \<and> move_html_files sd wd app = (None, s)
                \<longrightarrow> import_run t wd app = (Some e, s1))"
proof -
  from update_soup_malformed[OF assms(4)] obtain e where e: "update_soup app soup = Inl e"
    by blast
  with assms(3) have one: "update_html s1 p app = (Some e, s1)"
    by (simp add: update_html_def)
  then have "update_htmls_loop app (p # post) s1 = (Some e, s1)" by simp
  with update_htmls_loop_append[OF assms(2), of "p # post"]
  have "update_htmls_loop app (pre @ p # post) s = (Some e, s1)" by simp
  with assms(1) have all: "update_htmls s app = (Some e, s1)" by (simp add: update_htmls_def)
  from update_htmls_loop_frame[OF assms(2)]
  have frame: "\<forall>q. (\<forall>p' \<in> set pre. p' \<parallel> q) \<longrightarrow> lookup (fs s1) q = lookup (fs s) q"
    and sf: "static_files s1 = static_files s"
    by simp_all
  have run: "import_run t wd app = (Some e, s1)"
    if "move_static_file (init_importer t) wd app ''js'' = (None, sa)
        \<and> move_static_file sa wd app ''css'' = (None, sb)
        \<and> move_static_file sb wd app ''images'' = (None, sc)
        \<and> move_static_file sc wd app ''documents'' = (None, sd)
        \<and> move_html_files sd wd app = (None, s)" for t wd sa sb sc sd
    using that all by (simp add: import_run_def then_run_def)
  from e one all frame sf run show ?thesis by blast
qed

theorem malformed_document_aborts_run_witness:
  "\<exists>e s1. import_run example_export [''export''] ''web'' = (Some e, s1)
     \<and> lookup (fs s1) [''web'', ''templates'', ''index.html'']
         = Inr (File [Tag ''html'' []
                  [NavigableString static_template_tag, Tag ''body'' [] [script_tag]]])
     \<and> lookup (fs s1) [''web'', ''templates'', ''broken.html'']
         = Inr (File [Tag ''html'' [] [Tag ''body'' [] [Tag ''img'' [] []]]])
     \<and> lookup (fs s1) [''web'', ''templates'', ''last.html'']
         = Inr (File [Tag ''html'' [] [Tag ''body'' [] []]])
     \<and> static_files s1 = [(''js'', []), (''css'', []), (''images'', []), (''documents'', [])]"
proof -
  let ?index = "[''web'', ''templates'', ''index.html'']"
  let ?broken = "[''web'', ''templates'', ''broken.html'']"
  let ?last = "[''web'', ''templates'', ''last.html'']"
  let ?good = "[Tag ''html'' [] [Tag ''body'' [] []]]"
  let ?bad = "[Tag ''html'' [] [Tag ''body'' [] [Tag ''img'' [] []]]]"
  let ?out = "[Tag ''html'' [] [NavigableString static_template_tag, Tag ''body'' [] [script_tag]]]"
  let ?static = "(''static'', Dir [(''web'', Dir [(''js'', Dir []), (''css'', Dir []),
                     (''images'', Dir []), (''documents'', Dir [])])])"
  have "\<exists>sa sb sc sd s.
       move_static_file (init_importer example_export) [''export''] ''web'' ''js'' = (None, sa)
     \<and> move_static_file sa [''export''] ''web'' ''css'' = (None, sb)
     \<and> move_static_file sb [''export''] ''web'' ''images'' = (None, sc)
     \<and> move_static_file sc [''export''] ''web'' ''documents'' = (None, sd)
     \<and> move_html_files sd [''export''] ''web'' = (None, s)
     \<and> html_paths s = [?index, ?broken, ?last]
     \<and> static_files s = [(''js'', []), (''css'', []), (''images'', []), (''documents'', [])]
     \<and> fs s = Dir [(''export'', Dir []),
                   (''web'', Dir [?static,
                      (''templates'', Dir [(''index.html'', File ?good),
                         (''broken.html'', File ?bad), (''last.html'', File ?good)])])]"
    by (simp add: example_export_def init_importer_def move_static_file_def move_html_files_def
        dest_static_dir_def dest_html_dir_def os_listdir_def except_file_not_found_def
        os_rename_def Let_def suffix_to_prefix)
  then obtain sa sb sc sd s
    where moves: "move_static_file (init_importer example_export) [''export''] ''web'' ''js'' = (None, sa)
     \<and> move_static_file sa [''export''] ''web'' ''css'' = (None, sb)
     \<and> move_static_file sb [''export''] ''web'' ''images'' = (None, sc)
     \<and> move_static_file sc [''export''] ''web'' ''documents'' = (None, sd)
     \<and> move_html_files sd [''export''] ''web'' = (None, s)"
      and hp: "html_paths s = [?index, ?broken, ?last]"
      and sf: "static_files s = [(''js'', []), (''css'', []), (''images'', []), (''documents'', [])]"
      and fs: "fs s = Dir [(''export'', Dir []),
                   (''web'', Dir [?static,
                      (''templates'', Dir [(''index.html'', File ?good),
                         (''broken.html'', File ?bad), (''last.html'', File ?good)])])]"
    by blast
  let ?s1 = "s\<lparr> fs := Dir [(''export'', Dir []),
                   (''web'', Dir [?static,
                      (''templates'', Dir [(''index.html'', File ?out),
                         (''broken.html'', File ?bad), (''last.html'', File ?good)])])] \<rparr>"
  have soup: "update_soup ''web'' ?good = Inr ?out"
    by (simp add: update_soup_def and_then_def link_pass_def img_pass_def script_pass_def
        lottie_pass_def lottie_sel_def data_for_pass_def data_for_sel_def load_static_step_def
        form_pass_def async_script_step_def found_def list_insert_def)
  from hp have paths: "html_paths s = [?index] @ ?broken # [?last]" by simp
  have first: "update_htmls_loop ''web'' [?index] s = (None, ?s1)"
    by (simp add: update_html_def open_read_def soup fs)
  have read: "open_read (fs ?s1) ?broken = Inr ?bad"
    by (simp add: open_read_def)
  have bad: "malformed ?bad"
    by (simp add: malformed_def tag_get_def)
  from malformed_document_aborts_run[OF paths first read bad]
  obtain e where frame: "\<forall>q. (\<forall>p' \<in> set [?index]. p' \<parallel> q) \<longrightarrow> lookup (fs ?s1) q = lookup (fs s) q"
    and keep: "static_files ?s1 = static_files s"
    and run: "\<forall>t wd sa sb sc sd.
                  move_static_file (init_importer t) wd ''web'' ''js'' = (None, sa)
                \<and> move_static_file sa wd ''web'' ''css'' = (None, sb)
                \<and> move_static_file sb wd ''web'' ''images'' = (None, sc)
                \<and> move_static_file sc wd ''web'' ''documents'' = (None, sd)
                \<and> move_html_files sd wd ''web'' = (None, s)
                \<longrightarrow> import_run t wd ''web'' = (Some e, ?s1)"
    by (elim exE conjE) (rule that, assumption+)
  from run moves have 1: "import_run example_export [''export''] ''web'' = (Some e, ?s1)"
    by blast
  have "\<forall>p' \<in> set [?index]. p' \<parallel> ?last" by (simp add: parallel_def)
  with frame have "lookup (fs ?s1) ?last = lookup (fs s) ?last" by blast
  with fs have 2: "lookup (fs ?s1) ?last = Inr (File ?good)" by simp
  have 3: "lookup (fs ?s1) ?index = Inr (File ?out)"
    and 4: "lookup (fs ?s1) ?broken = Inr (File ?bad)"
    by simp_all
  from keep sf have 5: "static_files ?s1 = [(''js'', []), (''css'', []), (''images'', []), (''documents'', [])]"
    by simp
  from 1 2 3 4 5 show ?thesis by blast
qed

section \<open>What a loop establishes for every tag\<close>





section \<open>The passes keep a document well formed\<close>

lemma attrs_grow_iff:
  "attrs_grow a a' =
     ((\<forall>k. tag_get a k \<noteq> None \<longrightarrow> tag_get a' k \<noteq> None)
      \<and> tag_get a' ''data-for'' = tag_get a ''data-for'')"
proof -
  have "(tag_get a k \<noteq> None) = (k \<in> set (map fst a))" for k
    by (simp add: tag_get_def map_of_eq_None_iff)
  then show ?thesis
    unfolding attrs_grow_def list_all_iff by blast
qed

lemma attrs_grow_keeps: "attrs_grow a a' \<Longrightarrow> tag_get a k \<noteq> None \<Longrightarrow> tag_get a' k \<noteq> None"
  by (simp add: attrs_grow_iff)


lemma attrs_grow_set: "k \<noteq> ''data-for'' \<Longrightarrow> attrs_grow a (tag_set k v a)"
  by (simp add: attrs_grow_iff tag_get_set)

lemma attrs_grow_trans: "attrs_grow a b \<Longrightarrow> attrs_grow b c \<Longrightarrow> attrs_grow a c"
  by (simp add: attrs_grow_iff)








lemma data_for_sel_grow: "attrs_grow a a' \<Longrightarrow> data_for_sel n a' = data_for_sel n a"
  by (simp add: data_for_sel_def attrs_grow_iff)

lemma loops_grow: "attrs_grow a a' \<Longrightarrow> loops a' = loops a"
  by (simp add: loops_def attrs_grow_iff)

lemma link_good_grow:
  "link_good (Tag n a cs) \<Longrightarrow> attrs_grow a a' \<Longrightarrow> link_good (Tag n a' cs')"
  using attrs_grow_keeps[of a a' "''href''"] by auto

lemma img_good_grow:
  "img_good (Tag n a cs) \<Longrightarrow> attrs_grow a a' \<Longrightarrow> img_good (Tag n a' cs')"
  using attrs_grow_keeps[of a a' "''src''"] by auto

lemma loop_good_grow:
  "loop_good (Tag n a cs) \<Longrightarrow> attrs_grow a a' \<Longrightarrow> length cs \<le> length cs' \<Longrightarrow>
     loop_good (Tag n a' cs')"
  using data_for_sel_grow[of a a' n] loops_grow[of a a'] by auto

lemma good_tag_grow:
  "good_tag (Tag n a cs) \<Longrightarrow> attrs_grow a a' \<Longrightarrow> length cs \<le> length cs' \<Longrightarrow>
     good_tag (Tag n a' cs')"
  unfolding good_tag_def
  using link_good_grow[of n a cs a' cs'] img_good_grow[of n a cs a' cs']
    loop_good_grow[of n a cs a' cs']
  by blast























section \<open>A well-formed document is rewritten without an exception\<close>












section \<open>Leading and trailing children under the passes\<close>








lemma tags_lead_string: "is_string t \<Longrightarrow> tags_lead nm ps t"
  by (cases t) auto









section \<open>The first tag of a name under the passes\<close>




lemma for_each_find_none:
  "for_each_tags sel body xs = Inr xs' \<Longrightarrow> find_tag_in nm xs = None \<Longrightarrow> find_tag_in nm xs' = None"
  using for_each_names(2)[of sel body xs xs'] find_tag_names(2)[of nm xs] find_tag_names(2)[of nm xs']
  by auto








section \<open>A second rewrite\<close>








lemma find_after_cons_string:
  "find_tag_in nm (NavigableString s # cs) = find_tag_in nm cs"
  by simp












section \<open>The script and lottie passes\<close>

lemma script_body_total: "\<exists>a'. script_body app n a = Inr (a', [])"
  by (simp add: script_body_def split: option.split)

lemma lottie_body_total: "\<exists>a'. lottie_body app n a = Inr (a', [])"
  by (simp add: lottie_body_def split: option.split)

text \<open>
  C10. The script pass and the lottie pass never raise, whatever the document; a
  \<^verbatim>\<open>script\<close> tag without \<^verbatim>\<open>src\<close> and a lottie container (a \<^verbatim>\<open>div\<close> with
  \<^verbatim>\<open>data-animation-type="lottie"\<close>) without \<^verbatim>\<open>data-src\<close> come out of their pass with the
  same name and attributes and no inserted child: the children are the pass's image of
  the old children, and they are the old children themselves when these are all strings.
  The \<^verbatim>\<open>link\<close> and \<^verbatim>\<open>img\<close> loops read \<^verbatim>\<open>href\<close> and \<^verbatim>\<open>src\<close> without such a test: a \<^verbatim>\<open>link\<close>
  without \<^verbatim>\<open>href\<close> or an \<^verbatim>\<open>img\<close> without \<^verbatim>\<open>src\<close> makes its loop raise.
\<close>

theorem script_lottie_missing_attribute_unchanged:
  "(\<exists>soup'. script_pass app soup = Inr soup' \<and>
      (\<forall>a cs. Tag ''script'' a cs \<in> set (subnodes_in soup) \<and> tag_get a ''src'' = None \<longrightarrow>
         (\<exists>cs'. script_pass app cs = Inr cs' \<and> Tag ''script'' a cs' \<in> set (subnodes_in soup')
            \<and> (list_all is_string cs \<longrightarrow> cs' = cs))))
   \<and> (\<exists>soup'. lottie_pass app soup = Inr soup' \<and>
      (\<forall>a cs. Tag ''div'' a cs \<in> set (subnodes_in soup) \<and> lottie_sel ''div'' a
           \<and> tag_get a ''data-src'' = None \<longrightarrow>
         (\<exists>cs'. lottie_pass app cs = Inr cs' \<and> Tag ''div'' a cs' \<in> set (subnodes_in soup')
            \<and> (list_all is_string cs \<longrightarrow> cs' = cs))))
   \<and> (\<forall>a cs. Tag ''link'' a cs \<in> set (subnodes_in soup) \<and> tag_get a ''href'' = None \<longrightarrow>
         (\<exists>e. link_pass app soup = Inl e))
   \<and> (\<forall>a cs. Tag ''img'' a cs \<in> set (subnodes_in soup) \<and> tag_get a ''src'' = None \<longrightarrow>
         (\<exists>e. img_pass app soup = Inl e))"
proof (intro conjI)
  obtain soup' where s: "script_pass app soup = Inr soup'"
    unfolding script_pass_def using for_each_total(2)[of "\<lambda>n a. n = ''script''" "script_body app" soup]
    by (auto simp: script_body_total)
  have "\<exists>cs'. script_pass app cs = Inr cs' \<and> Tag ''script'' a cs' \<in> set (subnodes_in soup')
            \<and> (list_all is_string cs \<longrightarrow> cs' = cs)"
    if t: "Tag ''script'' a cs \<in> set (subnodes_in soup)" and n: "tag_get a ''src'' = None" for a cs
  proof -
    from for_each_reaches(2)[of "\<lambda>n a. n = ''script''" "script_body app" soup soup'] s t
    obtain t' where 1: "for_each_tag (\<lambda>n a. n = ''script'') (script_body app) (Tag ''script'' a cs) = Inr t'"
      and 2: "t' \<in> set (subnodes_in soup')"
      unfolding script_pass_def by blast
    from n have b: "script_body app ''script'' a = Inr (a, [])" by (simp add: script_body_def)
    from 1 b obtain cs' where c: "for_each_tags (\<lambda>n a. n = ''script'') (script_body app) cs = Inr cs'"
      and t': "t' = Tag ''script'' a cs'"
      by (auto split: sum.splits)
    from c for_each_tags_strings[of cs "\<lambda>n a. n = ''script''" "script_body app"]
    have "list_all is_string cs \<longrightarrow> cs' = cs" by auto
    with c t' 2 show ?thesis unfolding script_pass_def by blast
  qed
  with s show "\<exists>soup'. script_pass app soup = Inr soup' \<and>
      (\<forall>a cs. Tag ''script'' a cs \<in> set (subnodes_in soup) \<and> tag_get a ''src'' = None \<longrightarrow>
         (\<exists>cs'. script_pass app cs = Inr cs' \<and> Tag ''script'' a cs' \<in> set (subnodes_in soup')
            \<and> (list_all is_string cs \<longrightarrow> cs' = cs)))"
    by blast
next
  obtain soup' where s: "lottie_pass app soup = Inr soup'"
    unfolding lottie_pass_def using for_each_total(2)[of lottie_sel "lottie_body app" soup]
    by (auto simp: lottie_body_total)
  have "\<exists>cs'. lottie_pass app cs = Inr cs' \<and> Tag ''div'' a cs' \<in> set (subnodes_in soup')
            \<and> (list_all is_string cs \<longrightarrow> cs' = cs)"
    if t: "Tag ''div'' a cs \<in> set (subnodes_in soup)" and l: "lottie_sel ''div'' a"
      and n: "tag_get a ''data-src'' = None" for a cs
  proof -
    from for_each_reaches(2)[of lottie_sel "lottie_body app" soup soup'] s t
    obtain t' where 1: "for_each_tag lottie_sel (lottie_body app) (Tag ''div'' a cs) = Inr t'"
      and 2: "t' \<in> set (subnodes_in soup')"
      unfolding lottie_pass_def by blast
    from n have b: "lottie_body app ''div'' a = Inr (a, [])" by (simp add: lottie_body_def)
    from 1 b l obtain cs' where c: "for_each_tags lottie_sel (lottie_body app) cs = Inr cs'"
      and t': "t' = Tag ''div'' a cs'"
      by (auto split: sum.splits)
    from c for_each_tags_strings[of cs lottie_sel "lottie_body app"]
    have "list_all is_string cs \<longrightarrow> cs' = cs" by auto
    with c t' 2 show ?thesis unfolding lottie_pass_def by blast
  qed
  with s show "\<exists>soup'. lottie_pass app soup = Inr soup' \<and>
      (\<forall>a cs. Tag ''div'' a cs \<in> set (subnodes_in soup) \<and> lottie_sel ''div'' a
           \<and> tag_get a ''data-src'' = None \<longrightarrow>
         (\<exists>cs'. lottie_pass app cs = Inr cs' \<and> Tag ''div'' a cs' \<in> set (subnodes_in soup')
            \<and> (list_all is_string cs \<longrightarrow> cs' = cs)))"
    by blast
next
  show "\<forall>a cs. Tag ''link'' a cs \<in> set (subnodes_in soup) \<and> tag_get a ''href'' = None \<longrightarrow>
         (\<exists>e. link_pass app soup = Inl e)"
  proof (intro allI impI)
    fix a cs assume h: "Tag ''link'' a cs \<in> set (subnodes_in soup) \<and> tag_get a ''href'' = None"
    then have "link_body app ''link'' a = Inl AttributeError" by (simp add: link_body_def)
    with h for_each_fails[of "''link''" a cs soup "\<lambda>n a. n = ''link''" "link_body app" AttributeError]
    have "\<And>xs'. link_pass app soup \<noteq> Inr xs'" by (simp add: link_pass_def)
    then show "\<exists>e. link_pass app soup = Inl e" by (cases "link_pass app soup") auto
  qed
next
  show "\<forall>a cs. Tag ''img'' a cs \<in> set (subnodes_in soup) \<and> tag_get a ''src'' = None \<longrightarrow>
         (\<exists>e. img_pass app soup = Inl e)"
  proof (intro allI impI)
    fix a cs assume h: "Tag ''img'' a cs \<in> set (subnodes_in soup) \<and> tag_get a ''src'' = None"
    then have "img_body app ''img'' a = Inl AttributeError" by (simp add: img_body_def)
    with h for_each_fails[of "''img''" a cs soup "\<lambda>n a. n = ''img''" "img_body app" AttributeError]
    have "\<And>xs'. img_pass app soup \<noteq> Inr xs'" by (simp add: img_pass_def)
    then show "\<exists>e. img_pass app soup = Inl e" by (cases "img_pass app soup") auto
  qed
qed

theorem script_lottie_missing_attribute_unchanged_witness:
  "(\<exists>soup'. script_pass ''web'' [Tag ''script'' [] [NavigableString ''x'']] = Inr soup'
      \<and> Tag ''script'' [] [NavigableString ''x''] \<in> set (subnodes_in soup'))
   \<and> (\<exists>soup'. lottie_pass ''web''
          [Tag ''div'' [(''data-animation-type'', ''lottie'')] [NavigableString ''x'']] = Inr soup'
      \<and> Tag ''div'' [(''data-animation-type'', ''lottie'')] [NavigableString ''x'']
            \<in> set (subnodes_in soup'))
   \<and> (\<exists>e. link_pass ''web'' [Tag ''link'' [(''rel'', ''stylesheet'')] []] = Inl e)
   \<and> (\<exists>e. img_pass ''web'' [Tag ''img'' [(''alt'', ''logo'')] []] = Inl e)"
proof -
  let ?s = "[Tag ''script'' [] [NavigableString ''x'']]"
  let ?l = "[Tag ''div'' [(''data-animation-type'', ''lottie'')] [NavigableString ''x'']]"
  from script_lottie_missing_attribute_unchanged[of "''web''" ?s]
  obtain s' where s: "script_pass ''web'' ?s = Inr s'"
    and sa: "\<forall>a cs. Tag ''script'' a cs \<in> set (subnodes_in ?s) \<and> tag_get a ''src'' = None \<longrightarrow>
         (\<exists>cs'. script_pass ''web'' cs = Inr cs' \<and> Tag ''script'' a cs' \<in> set (subnodes_in s')
            \<and> (list_all is_string cs \<longrightarrow> cs' = cs))"
    by blast
  from script_lottie_missing_attribute_unchanged[of "''web''" ?l]
  obtain l' where l: "lottie_pass ''web'' ?l = Inr l'"
    and la: "\<forall>a cs. Tag ''div'' a cs \<in> set (subnodes_in ?l) \<and> lottie_sel ''div'' a
           \<and> tag_get a ''data-src'' = None \<longrightarrow>
         (\<exists>cs'. lottie_pass ''web'' cs = Inr cs' \<and> Tag ''div'' a cs' \<in> set (subnodes_in l')
            \<and> (list_all is_string cs \<longrightarrow> cs' = cs))"
    by blast
  from sa[rule_format, of "[]" "[NavigableString ''x'']"]
  have 1: "Tag ''script'' [] [NavigableString ''x''] \<in> set (subnodes_in s')"
    by (auto simp: tag_get_def)
  from la[rule_format, of "[(''data-animation-type'', ''lottie'')]" "[NavigableString ''x'']"]
  have 2: "Tag ''div'' [(''data-animation-type'', ''lottie'')] [NavigableString ''x''] \<in> set (subnodes_in l')"
    by (auto simp: tag_get_def lottie_sel_def)
  let ?k = "[Tag ''link'' [(''rel'', ''stylesheet'')] []]"
  from script_lottie_missing_attribute_unchanged[of "''web''" ?k]
  have "\<forall>a cs. Tag ''link'' a cs \<in> set (subnodes_in ?k) \<and> tag_get a ''href'' = None \<longrightarrow>
         (\<exists>e. link_pass ''web'' ?k = Inl e)"
    by blast
  from this[rule_format, of "[(''rel'', ''stylesheet'')]" "[]"]
  have 3: "\<exists>e. link_pass ''web'' ?k = Inl e" by (simp add: tag_get_def)
  let ?i = "[Tag ''img'' [(''alt'', ''logo'')] []]"
  from script_lottie_missing_attribute_unchanged[of "''web''" ?i]
  have "\<forall>a cs. Tag ''img'' a cs \<in> set (subnodes_in ?i) \<and> tag_get a ''src'' = None \<longrightarrow>
         (\<exists>e. img_pass ''web'' ?i = Inl e)"
    by blast
  from this[rule_format, of "[(''alt'', ''logo'')]" "[]"]
  have 4: "\<exists>e. img_pass ''web'' ?i = Inl e" by (simp add: tag_get_def)
  from s l 1 2 3 4 show ?thesis by blast
qed

end
